theory Spec2Isabelle
  imports Complex_Main
begin

section \<open>Turn model and the two stores\<close>

text \<open>
  \<^verbatim>\<open>src/lib/logStore.ts\<close> declares \<^verbatim>\<open>ConversationTurn\<close>; the persona and the
  application state live in the store module (\<^verbatim>\<open>useAppStore\<close>).  A \<^verbatim>\<open>Date\<close> is a
  point on a discrete clock, an optional field is an \<open>option\<close>.  Only the fields of a
  persona that the store operations below read or write are kept; the others (avatar,
  backstory, traits, journal, ...) are copied unchanged by every operation here.
\<close>

datatype role = User | Agent | System

record ConversationTurn =
  timestamp :: nat
  role :: role
  "text" :: string
  isFinal :: bool
  reaction :: "string option"

record Persona =
  personaId :: string
  name :: string
  chatHistory :: "ConversationTurn list"
  rapport :: real
  unreadCount :: "nat option"

text \<open>
  Both zustand stores in one record: \<open>personas\<close> and \<open>activePersonaId\<close> are the
  fields of \<^verbatim>\<open>useAppStore\<close>, \<open>turns\<close> is the active view held by \<^verbatim>\<open>useLogStore\<close>.
\<close>

record Stores =
  personas :: "Persona list"
  activePersonaId :: "string option"
  turns :: "ConversationTurn list"

text \<open>
  JavaScript truthiness of a \<^verbatim>\<open>string | null\<close> / \<^verbatim>\<open>string | undefined\<close> value:
  \<^verbatim>\<open>null\<close>, \<^verbatim>\<open>undefined\<close> and the empty string are falsy.
\<close>

definition truthy :: "string option \<Rightarrow> bool" where
  "truthy v = (case v of None \<Rightarrow> False | Some x \<Rightarrow> x \<noteq> [])"

subsection \<open>Operations of the application store\<close>

definition getPersonaById :: "Stores \<Rightarrow> string \<Rightarrow> Persona option" where
  "getPersonaById s i = find (\<lambda>p. personaId p = i) (personas s)"

definition updatePersonaChatHistory :: "string \<Rightarrow> ConversationTurn list \<Rightarrow> Stores \<Rightarrow> Stores" where
  "updatePersonaChatHistory pid h s =
     s\<lparr>personas := map (\<lambda>p. if personaId p = pid then p\<lparr>chatHistory := h\<rparr> else p) (personas s)\<rparr>"

definition incrementPersonaUnreadCount :: "string \<Rightarrow> Stores \<Rightarrow> Stores" where
  "incrementPersonaUnreadCount pid s =
     s\<lparr>personas := map (\<lambda>p. if personaId p = pid
                              then p\<lparr>unreadCount :=
                                     Some ((case unreadCount p of None \<Rightarrow> 0 | Some n \<Rightarrow> n) + 1)\<rparr>
                              else p) (personas s)\<rparr>"

definition clearPersonaUnreadCount :: "string \<Rightarrow> Stores \<Rightarrow> Stores" where
  "clearPersonaUnreadCount pid s =
     s\<lparr>personas := map (\<lambda>p. if personaId p = pid then p\<lparr>unreadCount := Some 0\<rparr> else p)
                         (personas s)\<rparr>"

definition selectPersona :: "string option \<Rightarrow> Stores \<Rightarrow> Stores" where
  "selectPersona i s =
     (let s1 = (if truthy i
                then (let s' = clearPersonaUnreadCount (the i) s
                      in s'\<lparr>turns := (case find (\<lambda>p. personaId p = the i) (personas s') of
                                         None \<Rightarrow> []
                                       | Some nextPersona \<Rightarrow> chatHistory nextPersona)\<rparr>)
                else s)
      in s1\<lparr>activePersonaId := i\<rparr>)"

text \<open>
  \<^verbatim>\<open>Partial<ConversationTurn>\<close>: every field may be absent.  The index of
  \<^verbatim>\<open>updateTurnInHistory\<close> is a JavaScript number; \<^verbatim>\<open>newHistory[turnIndex]\<close> is
  \<^verbatim>\<open>undefined\<close> for every index that is not one of \<open>0 .. length - 1\<close>.
\<close>

record TurnUpdates =
  u_timestamp :: "nat option"
  u_role :: "role option"
  u_text :: "string option"
  u_isFinal :: "bool option"
  u_reaction :: "string option"

definition spreadUpdates :: "ConversationTurn \<Rightarrow> TurnUpdates \<Rightarrow> string option \<Rightarrow> ConversationTurn" where
  "spreadUpdates t u newReaction =
     \<lparr>timestamp = (case u_timestamp u of None \<Rightarrow> timestamp t | Some v \<Rightarrow> v),
      role = (case u_role u of None \<Rightarrow> role t | Some v \<Rightarrow> v),
      text = (case u_text u of None \<Rightarrow> text t | Some v \<Rightarrow> v),
      isFinal = (case u_isFinal u of None \<Rightarrow> isFinal t | Some v \<Rightarrow> v),
      reaction = newReaction\<rparr>"

definition updateHistoryAt :: "int \<Rightarrow> TurnUpdates \<Rightarrow> ConversationTurn list \<Rightarrow> ConversationTurn list" where
  "updateHistoryAt turnIndex updates newHistory =
     (if 0 \<le> turnIndex \<and> turnIndex < int (length newHistory)
      then (let currentReaction = reaction (newHistory ! nat turnIndex);
                newReaction = (if truthy (u_reaction updates) \<and> currentReaction = u_reaction updates
                               then None else u_reaction updates)
            in newHistory[nat turnIndex := spreadUpdates (newHistory ! nat turnIndex) updates newReaction])
      else newHistory)"

definition updateTurnInHistory :: "string \<Rightarrow> int \<Rightarrow> TurnUpdates \<Rightarrow> Stores \<Rightarrow> Stores" where
  "updateTurnInHistory pid turnIndex updates s =
     s\<lparr>personas := map (\<lambda>p. if personaId p = pid
                              then p\<lparr>chatHistory := updateHistoryAt turnIndex updates (chatHistory p)\<rparr>
                              else p) (personas s)\<rparr>"

subsection \<open>Operations of the log store\<close>

text \<open>
  Lines 36--57 of \<^verbatim>\<open>appendTurn\<close>: the new history computed from the current one.  The
  clock value \<open>now\<close> stands for \<^verbatim>\<open>new Date()\<close>; the optional argument \<^verbatim>\<open>isFinal\<close> is
  \<open>None\<close> when it is omitted (or not a boolean).
\<close>

definition mergeChunk :: "nat \<Rightarrow> role \<Rightarrow> string \<Rightarrow> bool option \<Rightarrow> ConversationTurn list \<Rightarrow> ConversationTurn list" where
  "mergeChunk now r textChunk isFinalArg currentHistory =
     (if currentHistory \<noteq> [] \<and> role (last currentHistory) = r \<and> \<not> isFinal (last currentHistory)
      then butlast currentHistory @
             [(last currentHistory)
                \<lparr>text := text (last currentHistory) @ textChunk,
                 isFinal := (case isFinalArg of Some b \<Rightarrow> b | None \<Rightarrow> isFinal (last currentHistory))\<rparr>]
      else currentHistory @
             [\<lparr>timestamp = now, role = r, text = textChunk,
               isFinal = (case isFinalArg of Some b \<Rightarrow> b | None \<Rightarrow> False),
               reaction = None\<rparr>])"

definition appendTurn :: "nat \<Rightarrow> string \<Rightarrow> role \<Rightarrow> string \<Rightarrow> bool option \<Rightarrow> Stores \<Rightarrow> Stores" where
  "appendTurn now pid r textChunk isFinalArg s =
     (case getPersonaById s pid of
        None \<Rightarrow> s
      | Some persona \<Rightarrow>
          (let newHistory = mergeChunk now r textChunk isFinalArg (chatHistory persona);
               s1 = updatePersonaChatHistory pid newHistory s
           in if activePersonaId s = Some pid then s1\<lparr>turns := newHistory\<rparr>
              else if r = Agent then incrementPersonaUnreadCount pid s1
              else s1))"

definition finalizeTurn :: "Stores \<Rightarrow> Stores" where
  "finalizeTurn s =
     (if \<not> truthy (activePersonaId s) then s
      else (case getPersonaById s (the (activePersonaId s)) of
              None \<Rightarrow> s
            | Some persona \<Rightarrow>
                (let hist = chatHistory persona
                 in if hist = [] then s
                    else if \<not> isFinal (last hist)
                    then (let newHistory = butlast hist @ [(last hist)\<lparr>isFinal := True\<rparr>]
                          in (updatePersonaChatHistory (the (activePersonaId s)) newHistory s)
                               \<lparr>turns := newHistory\<rparr>)
                    else s)))"

definition updateTurn :: "int \<Rightarrow> TurnUpdates \<Rightarrow> Stores \<Rightarrow> Stores" where
  "updateTurn turnIndex updates s =
     (if \<not> truthy (activePersonaId s) then s
      else (let s1 = updateTurnInHistory (the (activePersonaId s)) turnIndex updates s
            in (case getPersonaById s1 (the (activePersonaId s)) of
                  None \<Rightarrow> s1
                | Some updatedPersona \<Rightarrow> s1\<lparr>turns := chatHistory updatedPersona\<rparr>)))"

text \<open>The history a persona id resolves to, when it resolves.\<close>

definition historyOf :: "Stores \<Rightarrow> string \<Rightarrow> ConversationTurn list option" where
  "historyOf s pid = map_option chatHistory (getPersonaById s pid)"

text \<open>
  The state the application starts in: the three predefined personas of
  \<^verbatim>\<open>src/lib/constants.ts\<close> with \<^verbatim>\<open>id = name.toLowerCase()\<close>, an empty history each, no
  active persona and an empty view.
\<close>

definition initialStores :: Stores where
  "initialStores =
     \<lparr>personas =
        [\<lparr>personaId = ''max'', name = ''Max'', chatHistory = [], rapport = 500, unreadCount = None\<rparr>,
         \<lparr>personaId = ''chloe'', name = ''Chloe'', chatHistory = [], rapport = 450, unreadCount = None\<rparr>,
         \<lparr>personaId = ''sean'', name = ''Sean'', chatHistory = [], rapport = 550, unreadCount = None\<rparr>],
      activePersonaId = None,
      turns = []\<rparr>"

text \<open>The object \<^verbatim>\<open>{ reaction: emoji }\<close> that \<^verbatim>\<open>handleReaction\<close> passes to \<^verbatim>\<open>updateTurn\<close>.\<close>

definition reactionOnly :: "string \<Rightarrow> TurnUpdates" where
  "reactionOnly emoji =
     \<lparr>u_timestamp = None, u_role = None, u_text = None, u_isFinal = None, u_reaction = Some emoji\<rparr>"

text \<open>An updates object without a \<^verbatim>\<open>reaction\<close> key, such as \<^verbatim>\<open>{ text: v }\<close>.\<close>

definition textOnly :: "string \<Rightarrow> TurnUpdates" where
  "textOnly v =
     \<lparr>u_timestamp = None, u_role = None, u_text = Some v, u_isFinal = None, u_reaction = None\<rparr>"

text \<open>
  A state after some use: Max is the active persona, the only turn of the conversation
  is a final user turn that already carries the reaction \<open>''+1''\<close>.
\<close>

definition reactedStores :: Stores where
  "reactedStores =
     \<lparr>personas =
        [\<lparr>personaId = ''max'', name = ''Max'',
          chatHistory = [\<lparr>timestamp = 1, role = User, text = ''Hi'', isFinal = True,
                          reaction = Some ''+1''\<rparr>],
          rapport = 500, unreadCount = Some 0\<rparr>,
         \<lparr>personaId = ''chloe'', name = ''Chloe'', chatHistory = [], rapport = 450, unreadCount = None\<rparr>],
      activePersonaId = Some ''max'',
      turns = [\<lparr>timestamp = 1, role = User, text = ''Hi'', isFinal = True, reaction = Some ''+1''\<rparr>]\<rparr>"

subsection \<open>Sequences of store operations\<close>

text \<open>
  The two writers of a history, as data, so that a history "reachable through a sequence
  of \<^verbatim>\<open>appendTurn\<close> and \<^verbatim>\<open>finalizeTurn\<close> operations" is the result of \<open>runOps\<close>.
\<close>

datatype storeOp =
    AppendTurn nat string role string "bool option"
  | FinalizeTurn

fun applyOp :: "storeOp \<Rightarrow> Stores \<Rightarrow> Stores" where
  "applyOp (AppendTurn now pid r textChunk isFinalArg) s = appendTurn now pid r textChunk isFinalArg s"
| "applyOp FinalizeTurn s = finalizeTurn s"

fun runOps :: "storeOp list \<Rightarrow> Stores \<Rightarrow> Stores" where
  "runOps [] s = s"
| "runOps (op # ops) s = runOps ops (applyOp op s)"

text \<open>Every turn before the trailing one is final; and the same for every persona.\<close>

definition sealedPrefix :: "ConversationTurn list \<Rightarrow> bool" where
  "sealedPrefix h = list_all isFinal (butlast h)"

definition allSealed :: "Stores \<Rightarrow> bool" where
  "allSealed s = list_all (\<lambda>p. sealedPrefix (chatHistory p)) (personas s)"

text \<open>
  A call of \<^verbatim>\<open>appendTurn\<close> with role \<open>r\<close> starts a new turn exactly when the history is
  empty, its trailing turn is final, or its trailing turn has another role.
\<close>

definition startsNewTurn :: "role \<Rightarrow> ConversationTurn list \<Rightarrow> bool" where
  "startsNewTurn r h = (h = [] \<or> isFinal (last h) \<or> role (last h) \<noteq> r)"

text \<open>
  The discipline under which the invariant holds: no \<^verbatim>\<open>appendTurn\<close> call changes role
  while the trailing turn of the addressed persona is still open.
\<close>

fun opKeepsSealed :: "Stores \<Rightarrow> storeOp \<Rightarrow> bool" where
  "opKeepsSealed s (AppendTurn now pid r textChunk isFinalArg) =
     (case historyOf s pid of
        None \<Rightarrow> True
      | Some h \<Rightarrow> h = [] \<or> isFinal (last h) \<or> role (last h) = r)"
| "opKeepsSealed s FinalizeTurn = True"

fun sealsBeforeSwitch :: "Stores \<Rightarrow> storeOp list \<Rightarrow> bool" where
  "sealsBeforeSwitch s [] = True"
| "sealsBeforeSwitch s (op # ops) = (opKeepsSealed s op \<and> sealsBeforeSwitch (applyOp op s) ops)"

text \<open>
  A run of \<^verbatim>\<open>appendTurn\<close> calls for one persona and one role; a call is the clock value,
  the text chunk and the optional \<^verbatim>\<open>isFinal\<close> argument.
\<close>

fun appendCalls :: "string \<Rightarrow> role \<Rightarrow> (nat \<times> string \<times> bool option) list \<Rightarrow> Stores \<Rightarrow> Stores" where
  "appendCalls pid r [] s = s"
| "appendCalls pid r ((now, textChunk, isFinalArg) # calls) s =
     appendCalls pid r calls (appendTurn now pid r textChunk isFinalArg s)"

fun mergeCalls :: "role \<Rightarrow> (nat \<times> string \<times> bool option) list \<Rightarrow> ConversationTurn list \<Rightarrow> ConversationTurn list" where
  "mergeCalls r [] h = h"
| "mergeCalls r ((now, textChunk, isFinalArg) # calls) h =
     mergeCalls r calls (mergeChunk now r textChunk isFinalArg h)"

definition chunksOf :: "(nat \<times> string \<times> bool option) list \<Rightarrow> string" where
  "chunksOf calls = concat (map (\<lambda>(now, textChunk, isFinalArg). textChunk) calls)"

definition lastFlag :: "(nat \<times> string \<times> bool option) list \<Rightarrow> bool" where
  "lastFlag calls = (case snd (snd (last calls)) of Some b \<Rightarrow> b | None \<Rightarrow> False)"

definition noneSealsEarly :: "(nat \<times> string \<times> bool option) list \<Rightarrow> bool" where
  "noneSealsEarly calls = list_all (\<lambda>(now, textChunk, isFinalArg). isFinalArg \<noteq> Some True) (butlast calls)"

subsection \<open>Rapport analysis\<close>

text \<open>
  \<^verbatim>\<open>analyzeRapport\<close> awaits one call of the remote service and parses its reply.  The
  remote call is an input of the model: it rejects, or resolves to a response whose
  \<^verbatim>\<open>text\<close> may be undefined.  \<^verbatim>\<open>JSON.parse\<close> (applied to the trimmed text with the
  code fences stripped) is a parameter \<open>parseReply\<close>, \<open>None\<close> when it throws.  A JSON
  number is a real number here; \<^verbatim>\<open>JSON.parse\<close> produces no NaN.  No other store
  operation is interleaved between the check at the start and the write at the end.
\<close>

datatype json =
    JNull
  | JBool bool
  | JNumber real
  | JString string
  | JArray "json list"
  | JObject "(string \<times> json) list"

datatype remoteReply = Rejects | Resolves "string option"

text \<open>
  \<^verbatim>\<open>parsed.updatedRapport\<close>: reading a property of \<^verbatim>\<open>null\<close> throws (outer \<open>None\<close>); a
  value without that property gives \<^verbatim>\<open>undefined\<close> (\<open>Some None\<close>); an object gives the
  value of the last member with that key.
\<close>

definition readUpdatedRapport :: "json \<Rightarrow> json option option" where
  "readUpdatedRapport parsed =
     (case parsed of
        JNull \<Rightarrow> None
      | JObject members \<Rightarrow> Some (map_of (rev members) ''updatedRapport'')
      | _ \<Rightarrow> Some None)"

text \<open>\<^verbatim>\<open>updatePersona(id, { rapport: v })\<close>.\<close>

definition updatePersonaRapport :: "string \<Rightarrow> real \<Rightarrow> Stores \<Rightarrow> Stores" where
  "updatePersonaRapport pid v s =
     s\<lparr>personas := map (\<lambda>p. if personaId p = pid then p\<lparr>rapport := v\<rparr> else p) (personas s)\<rparr>"

text \<open>
  How a run ended: \<open>Skipped\<close> is the early return before any remote call, \<open>Failed\<close>
  the \<^verbatim>\<open>catch\<close> block, \<open>Ignored\<close> a parsed reply whose \<^verbatim>\<open>updatedRapport\<close> is not a
  number, \<open>Stored v\<close> the call of \<^verbatim>\<open>updatePersona\<close> with the clamped value.
\<close>

datatype rapportOutcome = Skipped | Failed | Ignored | Stored real

definition analyzeRapport ::
  "(string \<Rightarrow> json option) \<Rightarrow> remoteReply \<Rightarrow> string \<Rightarrow> ConversationTurn list \<Rightarrow> Stores
     \<Rightarrow> rapportOutcome \<times> Stores" where
  "analyzeRapport parseReply reply pid exchange s =
     (case getPersonaById s pid of
        None \<Rightarrow> (Skipped, s)
      | Some persona \<Rightarrow>
          if exchange = [] then (Skipped, s)
          else (case reply of
                  Rejects \<Rightarrow> (Failed, s)
                | Resolves None \<Rightarrow> (Failed, s)
                | Resolves (Some replyText) \<Rightarrow>
                    (case parseReply replyText of
                       None \<Rightarrow> (Failed, s)
                     | Some parsed \<Rightarrow>
                         (case readUpdatedRapport parsed of
                            None \<Rightarrow> (Failed, s)
                          | Some (Some (JNumber v)) \<Rightarrow>
                              (let newRapport = max 0 (min 1000 v)
                               in (Stored newRapport, updatePersonaRapport pid newRapport s))
                          | Some _ \<Rightarrow> (Ignored, s)))))"

subsection \<open>The live session\<close>

text \<open>
  The state of \<^verbatim>\<open>useLiveApi\<close> next to the stores: the \<^verbatim>\<open>connected\<close> state (here
  \<open>connectedFlag\<close>, the name \<open>connected\<close> being a constant of the library), the persona
  of the running call (the ref \<^verbatim>\<open>activeCallPersonaId\<close>), and two logs of what the hook
  asked of its collaborators (the calls of \<^verbatim>\<open>client.disconnect()\<close> and the dispatched
  \<^verbatim>\<open>updatePersonaJournal\<close> calls with their arguments).

  The event handlers are closures created by an effect with the dependencies
  \<^verbatim>\<open>[client, connected, disconnect]\<close>: the \<^verbatim>\<open>connected\<close> that \<^verbatim>\<open>onClose\<close> tests is the
  value of the state at the render that bound the handler, not the value
  \<^verbatim>\<open>setConnected\<close> has written since.  \<open>renderedConnected\<close> is that captured value;
  \<open>rerender\<close> is the render and effect run that binds the handlers anew.
  \<^verbatim>\<open>setConnected\<close> writes \<open>connectedFlag\<close> only.
\<close>

record LiveSession = Stores +
  connectedFlag :: bool
  renderedConnected :: bool
  activeCallPersonaId :: "string option"
  clientDisconnects :: nat
  journalDispatches :: "(string \<times> ConversationTurn list) list"

definition disconnect :: "LiveSession \<Rightarrow> LiveSession" where
  "disconnect s =
     (let s1 = s\<lparr>clientDisconnects := clientDisconnects s + 1, connectedFlag := False\<rparr>;
          s2 = (if truthy (activeCallPersonaId s1)
                then (let currentTurns = turns s1
                      in if currentTurns \<noteq> []
                         then s1\<lparr>journalDispatches :=
                                   journalDispatches s1 @ [(the (activeCallPersonaId s1), currentTurns)],
                                 turns := []\<rparr>
                         else s1)
                else s1)
      in s2\<lparr>activeCallPersonaId := None\<rparr>)"

definition onOpen :: "LiveSession \<Rightarrow> LiveSession" where
  "onOpen s = s\<lparr>connectedFlag := True\<rparr>"




subsection \<open>Message pacing\<close>

text \<open>
  \<^verbatim>\<open>splitMessage\<close> of \<^verbatim>\<open>StreamingConsole.tsx\<close>.  A JavaScript string is a sequence of
  UTF-16 code units, and \<^verbatim>\<open>length\<close>, \<^verbatim>\<open>substring\<close>, \<^verbatim>\<open>indexOf\<close> and \<^verbatim>\<open>lastIndexOf\<close>
  count code units; two of the sentence marks (U+2026, U+2014) lie outside Latin-1, so a
  string is a list of code units here.  \<open>ascii\<close> reads an ASCII literal as such a list.
  \<^verbatim>\<open>trim\<close> removes the white space and line terminators of ECMAScript at both ends.
  \<^verbatim>\<open>lastIndexOf(p, n)\<close> searches backwards from \<open>min n length\<close>, \<^verbatim>\<open>indexOf(p, n)\<close>
  forwards from there; both give \<open>-1\<close> when there is no occurrence.
\<close>

type_synonym jsstring = "nat list"

definition ascii :: "string \<Rightarrow> jsstring" where
  "ascii cs = map of_char cs"

definition isWhiteSpace :: "nat \<Rightarrow> bool" where
  "isWhiteSpace u =
     (u \<in> {9, 10, 11, 12, 13, 32, 160, 5760, 8232, 8233, 8239, 8287, 12288, 65279}
      \<or> (8192 \<le> u \<and> u \<le> 8202))"

definition trim :: "jsstring \<Rightarrow> jsstring" where
  "trim s = rev (dropWhile isWhiteSpace (rev (dropWhile isWhiteSpace s)))"

definition matchesAt :: "jsstring \<Rightarrow> jsstring \<Rightarrow> nat \<Rightarrow> bool" where
  "matchesAt s searchString k =
     (k + length searchString \<le> length s \<and> take (length searchString) (drop k s) = searchString)"

fun lastIndexFrom :: "jsstring \<Rightarrow> jsstring \<Rightarrow> nat \<Rightarrow> int" where
  "lastIndexFrom s searchString 0 = (if matchesAt s searchString 0 then 0 else - 1)"
| "lastIndexFrom s searchString (Suc k) =
     (if matchesAt s searchString (Suc k) then int (Suc k) else lastIndexFrom s searchString k)"

definition lastIndexOf :: "jsstring \<Rightarrow> jsstring \<Rightarrow> nat \<Rightarrow> int" where
  "lastIndexOf s searchString position = lastIndexFrom s searchString (min position (length s))"

definition indexOf :: "jsstring \<Rightarrow> jsstring \<Rightarrow> nat \<Rightarrow> int" where
  "indexOf s searchString position =
     (case find (matchesAt s searchString) [min position (length s) ..< Suc (length s)] of
        None \<Rightarrow> - 1
      | Some k \<Rightarrow> int k)"

definition MIN_CHUNK :: nat where "MIN_CHUNK = 20"
definition MAX_CHUNK :: nat where "MAX_CHUNK = 140"
definition IDEAL_CHUNK :: nat where "IDEAL_CHUNK = 80"

definition sentenceEndChars :: "jsstring list" where
  "sentenceEndChars = [[46], [33], [63], [8230], [8212], [46, 46, 46]]"

definition sentenceSplit :: "jsstring \<Rightarrow> nat \<Rightarrow> int" where
  "sentenceSplit remainingText slicePoint =
     foldl (\<lambda>splitAt ch. let pos = lastIndexOf remainingText ch slicePoint
                          in if pos > int MIN_CHUNK then max splitAt pos else splitAt)
           (- 1) sentenceEndChars"

text \<open>
  One round of the \<^verbatim>\<open>while\<close> loop for a remaining text of at least \<^verbatim>\<open>MAX_CHUNK\<close> code
  units: the bubble that is pushed and the new remaining text.
\<close>

definition peel :: "jsstring \<Rightarrow> jsstring \<times> jsstring" where
  "peel remainingText =
     (let slicePoint = min (length remainingText) MAX_CHUNK;
          splitAt = sentenceSplit remainingText slicePoint
      in if splitAt \<noteq> - 1
         then (trim (take (nat (splitAt + 1)) remainingText),
               trim (drop (nat (splitAt + 1)) remainingText))
         else (let comma = lastIndexOf remainingText [44] slicePoint
               in if comma > int MIN_CHUNK
                  then (trim (take (nat (comma + 1)) remainingText),
                        trim (drop (nat (comma + 1)) remainingText))
                  else (let space = lastIndexOf remainingText [32] IDEAL_CHUNK
                        in if space > int MIN_CHUNK
                           then (trim (take (nat space) remainingText),
                                 trim (drop (nat space) remainingText))
                           else (let nextSpace = indexOf remainingText [32] IDEAL_CHUNK
                                 in if nextSpace \<noteq> - 1
                                    then (trim (take (nat nextSpace) remainingText),
                                          trim (drop (nat nextSpace) remainingText))
                                    else (remainingText, [])))))"

function splitLoop :: "jsstring \<Rightarrow> jsstring list \<Rightarrow> jsstring list" where
  "splitLoop remainingText bubbles =
     (if length remainingText > 0
      then (if length remainingText < MAX_CHUNK then bubbles @ [remainingText]
            else splitLoop (snd (peel remainingText)) (bubbles @ [fst (peel remainingText)]))
      else bubbles)"
  by pat_completeness auto

definition splitMessage :: "jsstring \<Rightarrow> jsstring list" where
  "splitMessage txt =
     (if length txt < MAX_CHUNK then [txt]
      else filter (\<lambda>b. length b > 0) (splitLoop (trim txt) []))"

text \<open>
  A string with no white space at either end, and the string without its white space.
\<close>

definition trimmed :: "jsstring \<Rightarrow> bool" where
  "trimmed b = (b = [] \<or> (\<not> isWhiteSpace (hd b) \<and> \<not> isWhiteSpace (last b)))"

definition strip :: "jsstring \<Rightarrow> jsstring" where
  "strip s = filter (\<lambda>u. \<not> isWhiteSpace u) s"

text \<open>
  The fragments laid out in order, each preceded by its gap; and what it means for a
  text to be rebuilt from fragments: the text is the fragments, verbatim and in order,
  with a run of white space (possibly empty) before each and after the last.
\<close>

definition weave :: "jsstring list \<Rightarrow> jsstring list \<Rightarrow> jsstring" where
  "weave gaps frags = concat (map (\<lambda>(g, f). g @ f) (zip gaps frags))"

definition spaced :: "jsstring list \<Rightarrow> jsstring \<Rightarrow> bool" where
  "spaced frags t =
     (\<exists>gaps rest. length gaps = length frags \<and> list_all (list_all isWhiteSpace) gaps \<and>
        list_all isWhiteSpace rest \<and> t = weave gaps frags @ rest)"

text \<open>A long token: thirty times \<open>a\<close>, a full stop, a hundred and twenty times \<open>b\<close>.\<close>

definition tokenText :: jsstring where
  "tokenText = replicate 30 97 @ [46] @ replicate 120 98"

section \<open>Lookup after an update\<close>

lemma find_map_same_key:
  assumes "\<And>x. P (f x) = P x"
  shows "find P (map f xs) = map_option f (find P xs)"
  using assms by (induction xs) auto

lemma getPersonaById_updatePersonaChatHistory:
  "getPersonaById (updatePersonaChatHistory pid h s) q =
     map_option (\<lambda>p. if personaId p = pid then p\<lparr>chatHistory := h\<rparr> else p) (getPersonaById s q)"
  unfolding getPersonaById_def updatePersonaChatHistory_def
  by (simp add: find_map_same_key)

lemma getPersonaById_incrementPersonaUnreadCount:
  "getPersonaById (incrementPersonaUnreadCount pid s) q =
     map_option (\<lambda>p. if personaId p = pid
                      then p\<lparr>unreadCount := Some ((case unreadCount p of None \<Rightarrow> 0 | Some n \<Rightarrow> n) + 1)\<rparr>
                      else p) (getPersonaById s q)"
  unfolding getPersonaById_def incrementPersonaUnreadCount_def
  by (simp add: find_map_same_key)

lemma getPersonaById_turns_update:
  "getPersonaById (s\<lparr>turns := v\<rparr>) q = getPersonaById s q"
  by (simp add: getPersonaById_def)

lemma getPersonaById_personaId:
  "getPersonaById s q = Some p \<Longrightarrow> personaId p = q"
  unfolding getPersonaById_def by (auto simp: find_Some_iff)

lemma historyOf_appendTurn:
  assumes "historyOf s pid = Some h"
  shows "historyOf (appendTurn now pid r c f s) pid = Some (mergeChunk now r c f h)"
proof -
  from assms obtain p where p: "getPersonaById s pid = Some p" and h: "chatHistory p = h"
    by (auto simp: historyOf_def)
  have pid: "personaId p = pid" using p by (rule getPersonaById_personaId)
  show ?thesis
    using p h pid
    by (simp add: historyOf_def appendTurn_def Let_def getPersonaById_turns_update
        getPersonaById_incrementPersonaUnreadCount getPersonaById_updatePersonaChatHistory)
qed

lemma getPersonaById_updateTurnInHistory:
  "getPersonaById (updateTurnInHistory pid i u s) q =
     map_option (\<lambda>p. if personaId p = pid
                      then p\<lparr>chatHistory := updateHistoryAt i u (chatHistory p)\<rparr> else p)
                (getPersonaById s q)"
  unfolding getPersonaById_def updateTurnInHistory_def
  by (simp add: find_map_same_key)

lemma historyOf_updateTurnInHistory:
  assumes "historyOf s pid = Some h"
  shows "historyOf (updateTurnInHistory pid i u s) pid = Some (updateHistoryAt i u h)"
proof -
  from assms obtain p where p: "getPersonaById s pid = Some p" and h: "chatHistory p = h"
    by (auto simp: historyOf_def)
  have "personaId p = pid" using p by (rule getPersonaById_personaId)
  with p h show ?thesis
    by (simp add: historyOf_def getPersonaById_updateTurnInHistory)
qed

lemma updateTurn_active:
  assumes "activePersonaId s = Some aid" and "aid \<noteq> []" and "historyOf s aid = Some h"
  shows "historyOf (updateTurn i u s) aid = Some (updateHistoryAt i u h)"
    and "turns (updateTurn i u s) = updateHistoryAt i u h"
    and "activePersonaId (updateTurn i u s) = Some aid"
proof -
  have t: "truthy (activePersonaId s)" using assms(1,2) by (simp add: truthy_def)
  have hu: "historyOf (updateTurnInHistory aid i u s) aid = Some (updateHistoryAt i u h)"
    using assms(3) by (rule historyOf_updateTurnInHistory)
  then obtain p where p: "getPersonaById (updateTurnInHistory aid i u s) aid = Some p"
    and ph: "chatHistory p = updateHistoryAt i u h"
    by (auto simp: historyOf_def)
  have eq: "updateTurn i u s = (updateTurnInHistory aid i u s)\<lparr>turns := chatHistory p\<rparr>"
    using t p assms(1) by (simp add: updateTurn_def Let_def)
  show "historyOf (updateTurn i u s) aid = Some (updateHistoryAt i u h)"
    using hu by (simp add: eq historyOf_def getPersonaById_turns_update)
  show "turns (updateTurn i u s) = updateHistoryAt i u h"
    by (simp add: eq ph)
  show "activePersonaId (updateTurn i u s) = Some aid"
    using assms(1) by (simp add: eq updateTurnInHistory_def)
qed

lemma spreadUpdates_reactionOnly:
  "spreadUpdates t (reactionOnly emoji) nr = t\<lparr>reaction := nr\<rparr>"
  by (cases t) (simp add: spreadUpdates_def reactionOnly_def)

lemma updateHistoryAt_reactionOnly:
  assumes "0 \<le> i" and "i < int (length h)" and "emoji \<noteq> []"
  shows "updateHistoryAt i (reactionOnly emoji) h =
           h[nat i := (h ! nat i)\<lparr>reaction := (if reaction (h ! nat i) = Some emoji
                                                 then None else Some emoji)\<rparr>]"
proof -
  have "u_reaction (reactionOnly emoji) = Some emoji" by (simp add: reactionOnly_def)
  then show ?thesis
    using assms by (simp add: updateHistoryAt_def spreadUpdates_reactionOnly truthy_def Let_def)
qed

lemma updateHistoryAt_out_of_range:
  "\<not> (0 \<le> i \<and> i < int (length h)) \<Longrightarrow> updateHistoryAt i u h = h"
  unfolding updateHistoryAt_def by (rule if_not_P)

section \<open>Histories of the example states\<close>

lemma historyOf_initialStores_max: "historyOf initialStores ''max'' = Some []"
  by (simp add: historyOf_def getPersonaById_def initialStores_def)

lemma historyOf_reactedStores_max:
  "historyOf reactedStores ''max'' =
     Some [\<lparr>timestamp = 1, role = User, text = ''Hi'', isFinal = True, reaction = Some ''+1''\<rparr>]"
  by (simp add: historyOf_def getPersonaById_def reactedStores_def)

section \<open>Reactions\<close>

lemma updateHistoryAt_length: "length (updateHistoryAt i u h) = length h"
  by (simp add: updateHistoryAt_def Let_def)

text \<open>
  C10.  For an in-range index and an updates object with no \<^verbatim>\<open>reaction\<close> (absent or
  \<^verbatim>\<open>undefined\<close>), \<^verbatim>\<open>updateTurnInHistory\<close> leaves the targeted turn with
  \<^verbatim>\<open>reaction = undefined\<close>, whatever reaction it had before: the reaction is written on
  every update.
\<close>

theorem updateTurnInHistory_erases_reaction:
  assumes "historyOf s pid = Some h" and "0 \<le> i" and "i < int (length h)"
    and "u_reaction u = None"
  shows "\<exists>h'. historyOf (updateTurnInHistory pid i u s) pid = Some h' \<and>
               length h' = length h \<and> reaction (h' ! nat i) = None"
proof -
  have lt: "nat i < length h" using assms(2,3) by simp
  have "reaction (updateHistoryAt i u h ! nat i) = None"
    using assms(2-) lt by (simp add: updateHistoryAt_def spreadUpdates_def truthy_def Let_def)
  then show ?thesis
    using historyOf_updateTurnInHistory [OF assms(1), of i u]
    by (simp add: updateHistoryAt_length)
qed

theorem updateTurnInHistory_erases_reaction_witness:
  "historyOf reactedStores ''max'' =
     Some [\<lparr>timestamp = 1, role = User, text = ''Hi'', isFinal = True, reaction = Some ''+1''\<rparr>] \<and>
   u_reaction (textOnly ''Hey'') = None \<and>
   (\<exists>h'. historyOf (updateTurnInHistory ''max'' 0 (textOnly ''Hey'') reactedStores) ''max'' = Some h' \<and>
         length h' = 1 \<and> reaction (h' ! nat 0) = None)"
proof -
  have u: "u_reaction (textOnly ''Hey'') = None" by (simp add: textOnly_def)
  show ?thesis
    using updateTurnInHistory_erases_reaction [OF historyOf_reactedStores_max _ _ u, of 0]
    by (simp add: historyOf_reactedStores_max u)
qed

text \<open>
  C5 (as amended).  For the active persona, a non-empty emoji \<open>r\<close> and an in-range
  index, \<^verbatim>\<open>updateTurn(i, {reaction: r})\<close> sets the turn's reaction to \<open>r\<close> when its current
  reaction differs from \<open>r\<close> and to \<^verbatim>\<open>undefined\<close> when it equals \<open>r\<close>, changes nothing
  else and writes the same history to the active view.  Applied twice it therefore
  leaves the reaction \<^verbatim>\<open>undefined\<close> when the reaction was not \<open>r\<close> before the first call,
  and leaves it \<open>r\<close> when it was \<open>r\<close>.  For an index out of range the history is
  unchanged.
\<close>

theorem updateTurn_toggle:
  assumes "activePersonaId s = Some aid" and "aid \<noteq> []" and "historyOf s aid = Some h"
    and "emoji \<noteq> []"
  shows "(0 \<le> i \<and> i < int (length h) \<longrightarrow>
            historyOf (updateTurn i (reactionOnly emoji) s) aid =
              Some (h[nat i := (h ! nat i)\<lparr>reaction := (if reaction (h ! nat i) = Some emoji
                                                         then None else Some emoji)\<rparr>]) \<and>
            turns (updateTurn i (reactionOnly emoji) s) =
              h[nat i := (h ! nat i)\<lparr>reaction := (if reaction (h ! nat i) = Some emoji
                                                   then None else Some emoji)\<rparr>] \<and>
            historyOf (updateTurn i (reactionOnly emoji) (updateTurn i (reactionOnly emoji) s)) aid =
              Some (h[nat i := (h ! nat i)\<lparr>reaction := (if reaction (h ! nat i) = Some emoji
                                                         then Some emoji else None)\<rparr>])) \<and>
         (\<not> (0 \<le> i \<and> i < int (length h)) \<longrightarrow>
            historyOf (updateTurn i (reactionOnly emoji) s) aid = Some h)"
proof (intro conjI impI)
  let ?u = "reactionOnly emoji"
  let ?s1 = "updateTurn i ?u s"
  have h1: "historyOf ?s1 aid = Some (updateHistoryAt i ?u h)"
    and t1: "turns ?s1 = updateHistoryAt i ?u h"
    and a1: "activePersonaId ?s1 = Some aid"
    using updateTurn_active [OF assms(1-3)] by simp_all
  have h2: "historyOf (updateTurn i ?u ?s1) aid = Some (updateHistoryAt i ?u (updateHistoryAt i ?u h))"
    using updateTurn_active(1) [OF a1 assms(2) h1] .
  {
    assume r: "0 \<le> i \<and> i < int (length h)"
    then have lt: "nat i < length h" by (simp add: nat_less_iff)
    let ?h1 = "h[nat i := (h ! nat i)\<lparr>reaction := (if reaction (h ! nat i) = Some emoji
                                                     then None else Some emoji)\<rparr>]"
    have e1: "updateHistoryAt i ?u h = ?h1"
      using r assms(4) by (simp add: updateHistoryAt_reactionOnly)
    show "historyOf ?s1 aid = Some ?h1" using h1 e1 by simp
    show "turns ?s1 = ?h1" using t1 e1 by simp
    have r1: "0 \<le> i" "i < int (length ?h1)" using r by simp_all
    have e2: "updateHistoryAt i ?u ?h1 =
                h[nat i := (h ! nat i)\<lparr>reaction := (if reaction (h ! nat i) = Some emoji
                                                       then Some emoji else None)\<rparr>]"
      using lt by (simp add: updateHistoryAt_reactionOnly [OF r1 assms(4)])
    show "historyOf (updateTurn i ?u ?s1) aid =
            Some (h[nat i := (h ! nat i)\<lparr>reaction := (if reaction (h ! nat i) = Some emoji
                                                       then Some emoji else None)\<rparr>])"
      using h2 e1 e2 by simp
  }
  {
    assume "\<not> (0 \<le> i \<and> i < int (length h))"
    then show "historyOf ?s1 aid = Some h"
      using h1 by (simp add: updateHistoryAt_out_of_range)
  }
qed

lemma reactedStores_active: "activePersonaId reactedStores = Some ''max''"
  by (simp add: reactedStores_def)

theorem updateTurn_toggle_witness:
  "historyOf (updateTurn 0 (reactionOnly ''ok'') reactedStores) ''max'' =
     Some [\<lparr>timestamp = 1, role = User, text = ''Hi'', isFinal = True, reaction = Some ''ok''\<rparr>] \<and>
   historyOf (updateTurn 0 (reactionOnly ''ok'') (updateTurn 0 (reactionOnly ''ok'') reactedStores)) ''max'' =
     Some [\<lparr>timestamp = 1, role = User, text = ''Hi'', isFinal = True, reaction = None\<rparr>] \<and>
   historyOf (updateTurn 5 (reactionOnly ''ok'') reactedStores) ''max'' =
     Some [\<lparr>timestamp = 1, role = User, text = ''Hi'', isFinal = True, reaction = Some ''+1''\<rparr>]"
  using updateTurn_toggle [OF reactedStores_active _ historyOf_reactedStores_max, of "''ok''" 0]
    updateTurn_toggle [OF reactedStores_active _ historyOf_reactedStores_max, of "''ok''" 5]
  by simp

text \<open>
  C5 as stated fails for a turn that already carries the reaction \<open>r\<close>: the first call
  removes it and the second call sets it again, so two calls leave \<open>r\<close>, not
  \<^verbatim>\<open>undefined\<close>.
\<close>

theorem updateTurn_toggle_counterexample:
  "map_option (map reaction)
     (historyOf (updateTurn 0 (reactionOnly ''+1'') (updateTurn 0 (reactionOnly ''+1'') reactedStores))
        ''max'')
   = Some [Some ''+1''] \<and>
   map_option (map reaction)
     (historyOf (updateTurn 0 (reactionOnly ''+1'') (updateTurn 0 (reactionOnly ''+1'') reactedStores))
        ''max'')
   \<noteq> Some [None]"
  by (simp add: historyOf_def getPersonaById_def reactedStores_def updateTurn_def
      updateTurnInHistory_def updateHistoryAt_def spreadUpdates_def reactionOnly_def truthy_def
      Let_def)

section \<open>Sealing the trailing turn\<close>

lemma finalizeTurn_unfold:
  "finalizeTurn s =
     (case activePersonaId s of
        None \<Rightarrow> s
      | Some aid \<Rightarrow>
          if aid = [] then s
          else (case historyOf s aid of
                  None \<Rightarrow> s
                | Some h \<Rightarrow>
                    if h = [] \<or> isFinal (last h) then s
                    else (updatePersonaChatHistory aid (butlast h @ [(last h)\<lparr>isFinal := True\<rparr>]) s)
                           \<lparr>turns := butlast h @ [(last h)\<lparr>isFinal := True\<rparr>]\<rparr>))"
  by (simp add: finalizeTurn_def historyOf_def truthy_def Let_def split: option.splits)

lemma historyOf_updatePersonaChatHistory_same:
  assumes "historyOf s pid = Some h"
  shows "historyOf ((updatePersonaChatHistory pid h' s)\<lparr>turns := v\<rparr>) pid = Some h'"
proof -
  from assms obtain p where p: "getPersonaById s pid = Some p"
    by (auto simp: historyOf_def)
  have "personaId p = pid" using p by (rule getPersonaById_personaId)
  with p show ?thesis
    by (simp add: historyOf_def getPersonaById_turns_update getPersonaById_updatePersonaChatHistory)
qed

lemma activePersonaId_updatePersonaChatHistory:
  "activePersonaId ((updatePersonaChatHistory pid h' s)\<lparr>turns := v\<rparr>) = activePersonaId s"
  by (simp add: updatePersonaChatHistory_def)

text \<open>
  C4.  \<^verbatim>\<open>finalizeTurn\<close> is idempotent on the whole state (persistent histories and
  active view): a second call right after a first changes nothing.  It leaves the state
  unchanged when there is no active persona, when the active persona has no turns, or
  when its trailing turn is already final.
\<close>

theorem finalizeTurn_idempotent:
  "finalizeTurn (finalizeTurn s) = finalizeTurn s \<and>
   (activePersonaId s = None \<longrightarrow> finalizeTurn s = s) \<and>
   (\<forall>aid h. activePersonaId s = Some aid \<and> historyOf s aid = Some h \<and> (h = [] \<or> isFinal (last h))
       \<longrightarrow> finalizeTurn s = s)"
proof (intro conjI allI impI)
  show "finalizeTurn (finalizeTurn s) = finalizeTurn s"
  proof (cases "activePersonaId s")
    case None
    then show ?thesis by (simp add: finalizeTurn_unfold)
  next
    case (Some aid)
    show ?thesis
    proof (cases "aid = []")
      case True
      with Some show ?thesis by (simp add: finalizeTurn_unfold)
    next
      case ne: False
      show ?thesis
      proof (cases "historyOf s aid")
        case None
        with Some ne show ?thesis by (simp add: finalizeTurn_unfold)
      next
        case (Some h)
        show ?thesis
        proof (cases "h = [] \<or> isFinal (last h)")
          case True
          with Some ne \<open>activePersonaId s = Some aid\<close> have "finalizeTurn s = s"
            by (simp add: finalizeTurn_unfold)
          then show ?thesis by simp
        next
          case False
          let ?h' = "butlast h @ [(last h)\<lparr>isFinal := True\<rparr>]"
          let ?s' = "(updatePersonaChatHistory aid ?h' s)\<lparr>turns := ?h'\<rparr>"
          have step: "finalizeTurn s = ?s'"
            using False Some ne \<open>activePersonaId s = Some aid\<close>
            by (simp add: finalizeTurn_unfold)
          have a: "activePersonaId ?s' = Some aid"
            using \<open>activePersonaId s = Some aid\<close>
            by (simp only: activePersonaId_updatePersonaChatHistory)
          have h: "historyOf ?s' aid = Some ?h'"
            using Some by (rule historyOf_updatePersonaChatHistory_same)
          have "finalizeTurn ?s' = ?s'"
            by (subst finalizeTurn_unfold) (simp only: a h ne option.case if_False, simp)
          with step show ?thesis by simp
        qed
      qed
    qed
  qed
next
  assume "activePersonaId s = None"
  then show "finalizeTurn s = s" by (simp add: finalizeTurn_unfold)
next
  fix aid h
  assume "activePersonaId s = Some aid \<and> historyOf s aid = Some h \<and> (h = [] \<or> isFinal (last h))"
  then show "finalizeTurn s = s" by (auto simp: finalizeTurn_unfold)
qed

text \<open>
  The three no-op cases and a sealing call: no active persona (initial state), an active
  persona without turns, a final trailing turn, and an open agent turn that the first
  call seals and the second leaves alone.
\<close>

theorem finalizeTurn_idempotent_witness:
  "finalizeTurn initialStores = initialStores \<and>
   finalizeTurn (selectPersona (Some ''max'') initialStores) = selectPersona (Some ''max'') initialStores \<and>
   finalizeTurn reactedStores = reactedStores \<and>
   finalizeTurn (appendTurn 2 ''max'' Agent ''Hel'' None reactedStores)
     \<noteq> appendTurn 2 ''max'' Agent ''Hel'' None reactedStores \<and>
   finalizeTurn (finalizeTurn (appendTurn 2 ''max'' Agent ''Hel'' None reactedStores))
     = finalizeTurn (appendTurn 2 ''max'' Agent ''Hel'' None reactedStores)"
proof -
  have a0: "activePersonaId initialStores = None" by (simp add: initialStores_def)
  have a1: "activePersonaId (selectPersona (Some ''max'') initialStores) = Some ''max''"
    by (simp add: selectPersona_def Let_def)
  have h1: "historyOf (selectPersona (Some ''max'') initialStores) ''max'' = Some []"
    by (simp add: selectPersona_def Let_def truthy_def clearPersonaUnreadCount_def initialStores_def
        historyOf_def getPersonaById_def)
  have open_turn: "finalizeTurn (appendTurn 2 ''max'' Agent ''Hel'' None reactedStores)
     \<noteq> appendTurn 2 ''max'' Agent ''Hel'' None reactedStores"
    by (simp add: finalizeTurn_def appendTurn_def mergeChunk_def getPersonaById_def
        updatePersonaChatHistory_def reactedStores_def truthy_def Let_def)
  show ?thesis
    using finalizeTurn_idempotent [of initialStores] a0
      finalizeTurn_idempotent [of "selectPersona (Some ''max'') initialStores"] a1 h1
      finalizeTurn_idempotent [of reactedStores] reactedStores_active historyOf_reactedStores_max
      finalizeTurn_idempotent [of "appendTurn 2 ''max'' Agent ''Hel'' None reactedStores"] open_turn
    by simp
qed

section \<open>Timestamps\<close>

lemma map_timestamp_mergeChunk:
  "map timestamp (mergeChunk now r c f h) =
     (if h \<noteq> [] \<and> role (last h) = r \<and> \<not> isFinal (last h)
      then map timestamp h else map timestamp h @ [now])"
proof (cases h rule: rev_cases)
  case Nil
  then show ?thesis by (simp add: mergeChunk_def)
next
  case (snoc xs x)
  then show ?thesis by (simp add: mergeChunk_def)
qed

lemma map_timestamp_seal_last:
  "h \<noteq> [] \<Longrightarrow> map timestamp (butlast h) @ [timestamp (last h)] = map timestamp h"
  by (cases h rule: rev_cases) simp_all

lemma historyOf_finalizeTurn_timestamps:
  assumes "historyOf s pid = Some h"
  shows "map_option (map timestamp) (historyOf (finalizeTurn s) pid) = Some (map timestamp h)"
proof -
  from assms obtain p where p: "getPersonaById s pid = Some p" and h: "chatHistory p = h"
    by (auto simp: historyOf_def)
  have pid: "personaId p = pid" using p by (rule getPersonaById_personaId)
  have sealed: "map_option (map timestamp)
                  (historyOf ((updatePersonaChatHistory aid (butlast ha @ [(last ha)\<lparr>isFinal := True\<rparr>]) s)
                                \<lparr>turns := v\<rparr>) pid) = Some (map timestamp h)"
    if "historyOf s aid = Some ha" and "ha \<noteq> []" for aid ha v
  proof (cases "pid = aid")
    case True
    with that(1) assms have "ha = h" by simp
    with True p pid that(2) show ?thesis
      by (simp add: historyOf_def getPersonaById_turns_update
          getPersonaById_updatePersonaChatHistory map_timestamp_seal_last)
  next
    case False
    with p pid h show ?thesis
      by (simp add: historyOf_def getPersonaById_turns_update
          getPersonaById_updatePersonaChatHistory)
  qed
  show ?thesis
  proof (cases "finalizeTurn s = s")
    case True
    then show ?thesis using assms by simp
  next
    case False
    then obtain aid ha where "historyOf s aid = Some ha" and "ha \<noteq> []"
      and "finalizeTurn s = (updatePersonaChatHistory aid (butlast ha @ [(last ha)\<lparr>isFinal := True\<rparr>]) s)
                              \<lparr>turns := butlast ha @ [(last ha)\<lparr>isFinal := True\<rparr>]\<rparr>"
      by (auto simp: finalizeTurn_unfold split: option.splits if_splits)
    then show ?thesis using sealed by simp
  qed
qed

text \<open>
  C9 (as amended).  The timestamp of a turn is the time at which the turn was created.
  A call of \<^verbatim>\<open>appendTurn\<close> that extends the open trailing turn leaves the timestamps
  of all turns of the history, the extended one included, as they were, whatever the
  clock shows at the extension; a call that starts a new turn stamps the new turn with
  the current time and leaves the timestamps of the existing turns as they were.
  \<^verbatim>\<open>finalizeTurn\<close> changes no timestamp.
\<close>

theorem appendTurn_timestamp:
  assumes "historyOf s pid = Some h"
  shows "(\<exists>h'. historyOf (appendTurn now pid r c f s) pid = Some h' \<and>
               map timestamp h' =
                 (if h \<noteq> [] \<and> role (last h) = r \<and> \<not> isFinal (last h)
                  then map timestamp h else map timestamp h @ [now])) \<and>
         map_option (map timestamp) (historyOf (finalizeTurn s) pid) = Some (map timestamp h)"
proof
  show "\<exists>h'. historyOf (appendTurn now pid r c f s) pid = Some h' \<and>
               map timestamp h' =
                 (if h \<noteq> [] \<and> role (last h) = r \<and> \<not> isFinal (last h)
                  then map timestamp h else map timestamp h @ [now])"
    using historyOf_appendTurn [OF assms, of now r c f] map_timestamp_mergeChunk [of now r c f h]
    by blast
  show "map_option (map timestamp) (historyOf (finalizeTurn s) pid) = Some (map timestamp h)"
    using assms by (rule historyOf_finalizeTurn_timestamps)
qed

text \<open>
  On the history of Max with its one final user turn of time 1: an agent chunk at time 2
  starts a turn stamped 2; the extension at time 9 leaves the timestamps 1 and 2; sealing
  the open turn leaves them too; a new agent turn at time 7 is stamped 7.
\<close>

theorem appendTurn_timestamp_witness:
  "map_option (map timestamp)
     (historyOf (appendTurn 9 ''max'' Agent ''lo!'' (Some True)
                  (appendTurn 2 ''max'' Agent ''Hel'' None reactedStores)) ''max'') = Some [1, 2] \<and>
   map_option (map timestamp)
     (historyOf (finalizeTurn (appendTurn 2 ''max'' Agent ''Hel'' None reactedStores)) ''max'')
     = Some [1, 2] \<and>
   map_option (map timestamp)
     (historyOf (appendTurn 7 ''max'' Agent ''Hey'' None reactedStores) ''max'') = Some [1, 7]"
proof -
  let ?open = "appendTurn 2 ''max'' Agent ''Hel'' None reactedStores"
  have o: "historyOf ?open ''max'' =
             Some [\<lparr>timestamp = 1, role = User, text = ''Hi'', isFinal = True, reaction = Some ''+1''\<rparr>,
                   \<lparr>timestamp = 2, role = Agent, text = ''Hel'', isFinal = False, reaction = None\<rparr>]"
    by (simp add: historyOf_appendTurn [OF historyOf_reactedStores_max] mergeChunk_def)
  from appendTurn_timestamp [OF o, of 9 Agent "''lo!''" "Some True"]
  have a: "map_option (map timestamp) (historyOf (appendTurn 9 ''max'' Agent ''lo!'' (Some True) ?open) ''max'')
             = Some [1, 2]"
    and b: "map_option (map timestamp) (historyOf (finalizeTurn ?open) ''max'') = Some [1, 2]"
    by auto
  from appendTurn_timestamp [OF historyOf_reactedStores_max, of 7 Agent "''Hey''" None]
  have c: "map_option (map timestamp) (historyOf (appendTurn 7 ''max'' Agent ''Hey'' None reactedStores) ''max'')
             = Some [1, 7]"
    by auto
  from a b c show ?thesis by simp
qed

text \<open>
  C9 as stated fails: a turn created at time 1 and extended at time 2 still carries
  the timestamp 1.
\<close>

theorem appendTurn_timestamp_counterexample:
  "map_option (map timestamp)
     (historyOf (appendTurn 2 ''max'' Agent ''lo!'' (Some True)
                  (appendTurn 1 ''max'' Agent ''Hel'' (Some False) initialStores)) ''max'')
   = Some [1] \<and>
   map_option (map timestamp)
     (historyOf (appendTurn 2 ''max'' Agent ''lo!'' (Some True)
                  (appendTurn 1 ''max'' Agent ''Hel'' (Some False) initialStores)) ''max'')
   \<noteq> Some [2]"
  by (simp add: historyOf_appendTurn [OF historyOf_appendTurn [OF historyOf_initialStores_max]]
      mergeChunk_def)

section \<open>Unread counts\<close>

lemma getPersonaById_clearPersonaUnreadCount:
  "getPersonaById (clearPersonaUnreadCount pid s) q =
     map_option (\<lambda>p. if personaId p = pid then p\<lparr>unreadCount := Some 0\<rparr> else p) (getPersonaById s q)"
  unfolding getPersonaById_def clearPersonaUnreadCount_def
  by (simp add: find_map_same_key)

lemma getPersonaById_activePersonaId_update:
  "getPersonaById (s\<lparr>activePersonaId := v\<rparr>) q = getPersonaById s q"
  by (simp add: getPersonaById_def)

text \<open>
  C6.  For a known persona \<open>pid\<close>: an \<^verbatim>\<open>appendTurn\<close> call while \<open>pid\<close> is not the active
  persona adds one to its unread count (an absent count reads as 0) exactly when the role
  is agent, and leaves the count as it was for user and system turns; a user or system
  turn leaves every persona's unread count unchanged, active or not; selecting \<open>pid\<close>
  sets its unread count to zero and makes it the active persona.  The scenario: with
  Max active and Chloe inactive, an agent turn appended to Chloe gives her the unread
  count 1, and selecting her gives 0.
\<close>

theorem appendTurn_unreadCount:
  assumes "getPersonaById s pid = Some p"
  shows "(activePersonaId s \<noteq> Some pid \<longrightarrow>
            map_option unreadCount (getPersonaById (appendTurn now pid r c f s) pid) =
              Some (if r = Agent
                    then Some ((case unreadCount p of None \<Rightarrow> 0 | Some n \<Rightarrow> n) + 1)
                    else unreadCount p)) \<and>
         (r \<noteq> Agent \<longrightarrow>
            map unreadCount (personas (appendTurn now pid r c f s)) = map unreadCount (personas s)) \<and>
         (pid \<noteq> [] \<longrightarrow>
            map_option unreadCount (getPersonaById (selectPersona (Some pid) s) pid) = Some (Some 0) \<and>
            activePersonaId (selectPersona (Some pid) s) = Some pid) \<and>
         map_option unreadCount
           (getPersonaById (appendTurn 1 ''chloe'' Agent ''hey'' (Some True)
                              (selectPersona (Some ''max'') initialStores)) ''chloe'') = Some (Some 1) \<and>
         map_option unreadCount
           (getPersonaById (selectPersona (Some ''chloe'')
                              (appendTurn 1 ''chloe'' Agent ''hey'' (Some True)
                                 (selectPersona (Some ''max'') initialStores))) ''chloe'') = Some (Some 0)"
proof (intro conjI impI)
  have pid: "personaId p = pid" using assms by (rule getPersonaById_personaId)
  {
    assume "activePersonaId s \<noteq> Some pid"
    then show "map_option unreadCount (getPersonaById (appendTurn now pid r c f s) pid) =
              Some (if r = Agent
                    then Some ((case unreadCount p of None \<Rightarrow> 0 | Some n \<Rightarrow> n) + 1)
                    else unreadCount p)"
      using assms pid
      by (simp add: appendTurn_def Let_def getPersonaById_incrementPersonaUnreadCount
          getPersonaById_updatePersonaChatHistory)
  }
  {
    assume "r \<noteq> Agent"
    then show "map unreadCount (personas (appendTurn now pid r c f s)) = map unreadCount (personas s)"
      using assms
      by (simp add: appendTurn_def Let_def updatePersonaChatHistory_def comp_def)
  }
  {
    assume ne: "pid \<noteq> []"
    then show "map_option unreadCount (getPersonaById (selectPersona (Some pid) s) pid) = Some (Some 0)"
      using assms pid
      by (simp add: selectPersona_def Let_def truthy_def getPersonaById_activePersonaId_update
          getPersonaById_turns_update getPersonaById_clearPersonaUnreadCount)
    show "activePersonaId (selectPersona (Some pid) s) = Some pid"
      by (simp add: selectPersona_def Let_def)
  }
  show "map_option unreadCount
           (getPersonaById (appendTurn 1 ''chloe'' Agent ''hey'' (Some True)
                              (selectPersona (Some ''max'') initialStores)) ''chloe'') = Some (Some 1)"
    by (simp add: appendTurn_def selectPersona_def Let_def truthy_def getPersonaById_def
        clearPersonaUnreadCount_def incrementPersonaUnreadCount_def updatePersonaChatHistory_def
        initialStores_def)
  show "map_option unreadCount
           (getPersonaById (selectPersona (Some ''chloe'')
                              (appendTurn 1 ''chloe'' Agent ''hey'' (Some True)
                                 (selectPersona (Some ''max'') initialStores))) ''chloe'') = Some (Some 0)"
    by (simp add: appendTurn_def selectPersona_def Let_def truthy_def getPersonaById_def
        clearPersonaUnreadCount_def incrementPersonaUnreadCount_def updatePersonaChatHistory_def
        initialStores_def)
qed

theorem appendTurn_unreadCount_witness:
  "getPersonaById initialStores ''sean'' =
     Some \<lparr>personaId = ''sean'', name = ''Sean'', chatHistory = [], rapport = 550, unreadCount = None\<rparr> \<and>
   map_option unreadCount (getPersonaById (appendTurn 3 ''sean'' Agent ''yo'' None initialStores) ''sean'')
     = Some (Some 1) \<and>
   map_option unreadCount (getPersonaById (appendTurn 3 ''sean'' User ''yo'' None initialStores) ''sean'')
     = Some None \<and>
   map_option unreadCount (getPersonaById (selectPersona (Some ''sean'') initialStores) ''sean'')
     = Some (Some 0)"
proof -
  have k: "getPersonaById initialStores ''sean'' =
     Some \<lparr>personaId = ''sean'', name = ''Sean'', chatHistory = [], rapport = 550, unreadCount = None\<rparr>"
    by (simp add: getPersonaById_def initialStores_def)
  have a: "activePersonaId initialStores \<noteq> Some ''sean''" by (simp add: initialStores_def)
  show ?thesis
    using appendTurn_unreadCount [OF k, of 3 Agent "''yo''" None] 
      appendTurn_unreadCount [OF k, of 3 User "''yo''" None] a k
    by simp
qed

section \<open>The open turn is the trailing turn\<close>

lemma sealedPrefix_mergeChunk:
  assumes "sealedPrefix h" and "h = [] \<or> isFinal (last h) \<or> role (last h) = r"
  shows "sealedPrefix (mergeChunk now r c f h)"
proof (cases h rule: rev_cases)
  case Nil
  then show ?thesis by (simp add: sealedPrefix_def mergeChunk_def)
next
  case (snoc xs x)
  with assms show ?thesis
    by (auto simp: sealedPrefix_def mergeChunk_def butlast_append)
qed

lemma sealedPrefix_seal_last:
  "sealedPrefix h \<Longrightarrow> sealedPrefix (butlast h @ [(last h)\<lparr>isFinal := True\<rparr>])"
  by (simp add: sealedPrefix_def)

lemma getPersonaById_in_set:
  "getPersonaById s q = Some p \<Longrightarrow> p \<in> set (personas s)"
  unfolding getPersonaById_def by (auto simp: find_Some_iff)

lemma allSealed_updatePersonaChatHistory:
  assumes "allSealed s" and "sealedPrefix h'"
  shows "allSealed (updatePersonaChatHistory pid h' s)"
  using assms by (auto simp: allSealed_def updatePersonaChatHistory_def list_all_iff)

lemma allSealed_incrementPersonaUnreadCount:
  "allSealed s \<Longrightarrow> allSealed (incrementPersonaUnreadCount pid s)"
  by (auto simp: allSealed_def incrementPersonaUnreadCount_def list_all_iff)

lemma allSealed_turns_update: "allSealed (s\<lparr>turns := v\<rparr>) = allSealed s"
  by (simp add: allSealed_def)

lemma allSealed_history:
  "allSealed s \<Longrightarrow> historyOf s pid = Some h \<Longrightarrow> sealedPrefix h"
  by (auto simp: allSealed_def historyOf_def list_all_iff dest: getPersonaById_in_set)

lemma allSealed_appendTurn:
  assumes "allSealed s" and "opKeepsSealed s (AppendTurn now pid r c f)"
  shows "allSealed (appendTurn now pid r c f s)"
proof (cases "getPersonaById s pid")
  case None
  then show ?thesis using assms(1) by (simp add: appendTurn_def)
next
  case (Some p)
  then have h: "historyOf s pid = Some (chatHistory p)" by (simp add: historyOf_def)
  have "sealedPrefix (chatHistory p)" using assms(1) h by (rule allSealed_history)
  moreover have "chatHistory p = [] \<or> isFinal (last (chatHistory p)) \<or> role (last (chatHistory p)) = r"
    using assms(2) h by simp
  ultimately have "sealedPrefix (mergeChunk now r c f (chatHistory p))"
    by (rule sealedPrefix_mergeChunk)
  then have "allSealed (updatePersonaChatHistory pid (mergeChunk now r c f (chatHistory p)) s)"
    using assms(1) by (simp add: allSealed_updatePersonaChatHistory)
  then show ?thesis
    using Some
    by (auto simp: appendTurn_def Let_def allSealed_turns_update allSealed_incrementPersonaUnreadCount)
qed

lemma allSealed_finalizeTurn:
  assumes "allSealed s"
  shows "allSealed (finalizeTurn s)"
proof -
  have "allSealed ((updatePersonaChatHistory aid (butlast h @ [(last h)\<lparr>isFinal := True\<rparr>]) s)
                     \<lparr>turns := butlast h @ [(last h)\<lparr>isFinal := True\<rparr>]\<rparr>)"
    if "historyOf s aid = Some h" for aid h
    using assms allSealed_history [OF assms that]
    by (simp add: allSealed_turns_update allSealed_updatePersonaChatHistory sealedPrefix_seal_last)
  then show ?thesis
    using assms by (simp add: finalizeTurn_unfold split: option.splits)
qed

lemma allSealed_applyOp:
  "allSealed s \<Longrightarrow> opKeepsSealed s op \<Longrightarrow> allSealed (applyOp op s)"
  by (cases op) (simp_all add: allSealed_appendTurn allSealed_finalizeTurn del: opKeepsSealed.simps)

text \<open>
  C1 (as amended).  Starting from a state in which every persona's history has only
  final turns before its trailing turn (the initial state, where all histories are
  empty, is one), every sequence of \<^verbatim>\<open>appendTurn\<close> and \<^verbatim>\<open>finalizeTurn\<close> operations in
  which no \<^verbatim>\<open>appendTurn\<close> call changes role while the addressed persona's trailing turn
  is still open leads to a state with the same property: at most the trailing turn of a
  history is non-final.
\<close>

theorem runOps_allSealed:
  assumes "allSealed s" and "sealsBeforeSwitch s ops"
  shows "allSealed (runOps ops s)"
  using assms
proof (induction ops arbitrary: s)
  case Nil
  then show ?case by simp
next
  case (Cons op ops)
  from Cons.prems have "allSealed (applyOp op s)" and "sealsBeforeSwitch (applyOp op s) ops"
    by (simp_all add: allSealed_applyOp)
  then show ?case using Cons.IH by simp
qed

lemma allSealed_initialStores: "allSealed initialStores"
  by (simp add: allSealed_def sealedPrefix_def initialStores_def)

theorem runOps_allSealed_witness:
  "allSealed initialStores \<and>
   sealsBeforeSwitch (selectPersona (Some ''max'') initialStores)
     [AppendTurn 1 ''max'' User ''Hi'' (Some False), FinalizeTurn,
      AppendTurn 2 ''max'' Agent ''Hel'' None, AppendTurn 3 ''max'' Agent ''lo!'' None] \<and>
   allSealed (runOps
     [AppendTurn 1 ''max'' User ''Hi'' (Some False), FinalizeTurn,
      AppendTurn 2 ''max'' Agent ''Hel'' None, AppendTurn 3 ''max'' Agent ''lo!'' None]
     (selectPersona (Some ''max'') initialStores))"
proof -
  have a: "allSealed (selectPersona (Some ''max'') initialStores)"
    by (simp add: allSealed_def sealedPrefix_def selectPersona_def clearPersonaUnreadCount_def
        initialStores_def truthy_def Let_def)
  have b: "sealsBeforeSwitch (selectPersona (Some ''max'') initialStores)
     [AppendTurn 1 ''max'' User ''Hi'' (Some False), FinalizeTurn,
      AppendTurn 2 ''max'' Agent ''Hel'' None, AppendTurn 3 ''max'' Agent ''lo!'' None]"
    by (simp add: historyOf_def getPersonaById_def appendTurn_def finalizeTurn_def mergeChunk_def
        updatePersonaChatHistory_def selectPersona_def clearPersonaUnreadCount_def
        initialStores_def truthy_def Let_def)
  show ?thesis
    using runOps_allSealed [OF a b] b allSealed_initialStores by simp
qed

text \<open>
  C1 as stated fails: a user transcription chunk that is not final, followed by an
  agent chunk, leaves the open user turn behind the new trailing turn.
\<close>

theorem runOps_allSealed_counterexample:
  "map_option (map (\<lambda>t. (role t, isFinal t)))
     (historyOf (runOps [AppendTurn 1 ''max'' User ''Hi'' (Some False),
                         AppendTurn 2 ''max'' Agent ''Hello'' (Some False)]
                   (selectPersona (Some ''max'') initialStores)) ''max'')
     = Some [(User, False), (Agent, False)] \<and>
   \<not> allSealed (runOps [AppendTurn 1 ''max'' User ''Hi'' (Some False),
                        AppendTurn 2 ''max'' Agent ''Hello'' (Some False)]
                  (selectPersona (Some ''max'') initialStores))"
  by (simp add: historyOf_def getPersonaById_def appendTurn_def mergeChunk_def
      updatePersonaChatHistory_def selectPersona_def clearPersonaUnreadCount_def
      initialStores_def truthy_def Let_def allSealed_def sealedPrefix_def)

section \<open>Chunks of one turn\<close>

lemma historyOf_appendCalls:
  "historyOf s pid = Some h \<Longrightarrow>
   historyOf (appendCalls pid r calls s) pid = Some (mergeCalls r calls h)"
proof (induction calls arbitrary: s h)
  case Nil
  then show ?case by simp
next
  case (Cons call calls)
  obtain now c f where call: "call = (now, c, f)" by (cases call)
  have "historyOf (appendTurn now pid r c f s) pid = Some (mergeChunk now r c f h)"
    using Cons.prems by (rule historyOf_appendTurn)
  from Cons.IH [OF this] show ?case by (simp add: call)
qed

lemma chunksOf_Cons: "chunksOf ((now, c, f) # calls) = c @ chunksOf calls"
  by (simp add: chunksOf_def)

lemma lastFlag_Cons: "calls \<noteq> [] \<Longrightarrow> lastFlag (call # calls) = lastFlag calls"
  by (simp add: lastFlag_def)

lemma noneSealsEarly_Cons:
  "calls \<noteq> [] \<Longrightarrow> noneSealsEarly ((now, c, f) # calls) = (f \<noteq> Some True \<and> noneSealsEarly calls)"
  by (simp add: noneSealsEarly_def)

lemma mergeCalls_extend:
  assumes "h \<noteq> []" and "role (last h) = r" and "\<not> isFinal (last h)"
    and "calls \<noteq> []" and "noneSealsEarly calls"
  shows "mergeCalls r calls h =
           butlast h @ [(last h)\<lparr>text := text (last h) @ chunksOf calls, isFinal := lastFlag calls\<rparr>]"
  using assms
proof (induction calls arbitrary: h)
  case Nil
  then show ?case by simp
next
  case (Cons call calls)
  obtain now c f where call: "call = (now, c, f)" by (cases call)
  show ?case
  proof (cases "calls = []")
    case True
    with Cons.prems show ?thesis
      by (simp add: call mergeChunk_def chunksOf_def lastFlag_def split: option.splits)
  next
    case False
    with Cons.prems have f: "f \<noteq> Some True" and rest: "noneSealsEarly calls"
      by (simp_all add: call noneSealsEarly_Cons)
    let ?h1 = "butlast h @ [(last h)\<lparr>text := text (last h) @ c, isFinal := False\<rparr>]"
    have m: "mergeChunk now r c f h = ?h1"
      using Cons.prems(1-3) f by (cases f) (simp_all add: mergeChunk_def)
    have "mergeCalls r calls ?h1 =
            butlast ?h1 @ [(last ?h1)\<lparr>text := text (last ?h1) @ chunksOf calls, isFinal := lastFlag calls\<rparr>]"
      using Cons.prems(2) False rest by (intro Cons.IH) simp_all
    then show ?thesis
      using False by (simp add: call m chunksOf_Cons lastFlag_Cons)
  qed
qed

lemma mergeCalls_fresh:
  assumes "startsNewTurn r h" and "noneSealsEarly ((now, c, f) # calls)"
  shows "mergeCalls r ((now, c, f) # calls) h =
           h @ [\<lparr>timestamp = now, role = r, text = chunksOf ((now, c, f) # calls),
                 isFinal = lastFlag ((now, c, f) # calls), reaction = None\<rparr>]"
proof (cases "calls = []")
  case True
  with assms(1) show ?thesis
    by (auto simp: mergeChunk_def startsNewTurn_def chunksOf_def lastFlag_def)
next
  case False
  with assms(2) have f: "f \<noteq> Some True" and rest: "noneSealsEarly calls"
    by (simp_all add: noneSealsEarly_Cons)
  let ?t = "\<lparr>timestamp = now, role = r, text = c, isFinal = False, reaction = None\<rparr>"
  have m: "mergeChunk now r c f h = h @ [?t]"
    using assms(1) f by (cases f) (auto simp: mergeChunk_def startsNewTurn_def)
  have "mergeCalls r calls (h @ [?t]) =
          butlast (h @ [?t]) @
            [(last (h @ [?t]))\<lparr>text := text (last (h @ [?t])) @ chunksOf calls, isFinal := lastFlag calls\<rparr>]"
    using False rest by (intro mergeCalls_extend) simp_all
  then show ?thesis
    using False by (simp add: m chunksOf_Cons lastFlag_Cons)
qed

text \<open>
  C2 (as amended).  For a known persona and a non-empty run of \<^verbatim>\<open>appendTurn\<close> calls
  with one role in which no call before the last passes \<^verbatim>\<open>isFinal = true\<close>: when the
  first call starts a new turn (the history is empty, or its trailing turn is final or
  has another role), the history gains exactly one trailing turn, stamped with the time
  of the first call, whose text is the concatenation of the chunks in call order and
  whose \<^verbatim>\<open>isFinal\<close> is the last call's argument (false when omitted); when the trailing
  turn is an open turn of that role, no turn is added and the chunks are concatenated
  onto that turn's text.  An extension sets \<^verbatim>\<open>isFinal\<close> to the argument when it is
  given and leaves it unchanged otherwise.  The scenario append(user, "Hi", true),
  append(agent, "Hel", false), append(agent, "lo!", true) yields the two final turns
  user "Hi" and agent "Hello!".
\<close>

theorem appendCalls_one_turn:
  assumes "historyOf s pid = Some h" and "calls \<noteq> []" and "noneSealsEarly calls"
  shows "(startsNewTurn r h \<longrightarrow>
            historyOf (appendCalls pid r calls s) pid =
              Some (h @ [\<lparr>timestamp = fst (hd calls), role = r, text = chunksOf calls,
                           isFinal = lastFlag calls, reaction = None\<rparr>])) \<and>
         (\<not> startsNewTurn r h \<longrightarrow>
            historyOf (appendCalls pid r calls s) pid =
              Some (butlast h @ [(last h)\<lparr>text := text (last h) @ chunksOf calls,
                                          isFinal := lastFlag calls\<rparr>])) \<and>
         (\<not> startsNewTurn r h \<longrightarrow>
            historyOf (appendTurn now pid r c f s) pid =
              Some (butlast h @ [(last h)\<lparr>text := text (last h) @ c,
                                          isFinal := (case f of Some b \<Rightarrow> b
                                                      | None \<Rightarrow> isFinal (last h))\<rparr>])) \<and>
         historyOf (appendTurn 3 ''max'' Agent ''lo!'' (Some True)
                     (appendTurn 2 ''max'' Agent ''Hel'' (Some False)
                       (appendTurn 1 ''max'' User ''Hi'' (Some True) initialStores))) ''max'' =
           Some [\<lparr>timestamp = 1, role = User, text = ''Hi'', isFinal = True, reaction = None\<rparr>,
                 \<lparr>timestamp = 2, role = Agent, text = ''Hello!'', isFinal = True, reaction = None\<rparr>]"
proof (intro conjI impI)
  have run: "historyOf (appendCalls pid r calls s) pid = Some (mergeCalls r calls h)"
    using assms(1) by (rule historyOf_appendCalls)
  obtain now0 c0 f0 rest where calls: "calls = (now0, c0, f0) # rest"
    using assms(2) by (cases calls) auto
  {
    assume "startsNewTurn r h"
    then show "historyOf (appendCalls pid r calls s) pid =
              Some (h @ [\<lparr>timestamp = fst (hd calls), role = r, text = chunksOf calls,
                           isFinal = lastFlag calls, reaction = None\<rparr>])"
      using run assms(3) unfolding calls by (simp add: mergeCalls_fresh del: mergeCalls.simps)
  }
  {
    assume "\<not> startsNewTurn r h"
    then have o: "h \<noteq> []" "role (last h) = r" "\<not> isFinal (last h)"
      by (simp_all add: startsNewTurn_def)
    show "historyOf (appendCalls pid r calls s) pid =
              Some (butlast h @ [(last h)\<lparr>text := text (last h) @ chunksOf calls,
                                          isFinal := lastFlag calls\<rparr>])"
      using run mergeCalls_extend [OF o assms(2,3)] by simp
    show "historyOf (appendTurn now pid r c f s) pid =
              Some (butlast h @ [(last h)\<lparr>text := text (last h) @ c,
                                          isFinal := (case f of Some b \<Rightarrow> b
                                                      | None \<Rightarrow> isFinal (last h))\<rparr>])"
      using historyOf_appendTurn [OF assms(1), of now r c f] o by (simp add: mergeChunk_def)
  }
  show "historyOf (appendTurn 3 ''max'' Agent ''lo!'' (Some True)
                     (appendTurn 2 ''max'' Agent ''Hel'' (Some False)
                       (appendTurn 1 ''max'' User ''Hi'' (Some True) initialStores))) ''max'' =
           Some [\<lparr>timestamp = 1, role = User, text = ''Hi'', isFinal = True, reaction = None\<rparr>,
                 \<lparr>timestamp = 2, role = Agent, text = ''Hello!'', isFinal = True, reaction = None\<rparr>]"
    by (simp add: historyOf_appendTurn
        [OF historyOf_appendTurn [OF historyOf_appendTurn [OF historyOf_initialStores_max]]]
        mergeChunk_def)
qed

theorem appendCalls_one_turn_witness:
  "historyOf reactedStores ''max'' =
     Some [\<lparr>timestamp = 1, role = User, text = ''Hi'', isFinal = True, reaction = Some ''+1''\<rparr>] \<and>
   noneSealsEarly [(2, ''Hel'', Some False), (3, ''lo'', None), (4, ''!'', Some True)] \<and>
   historyOf (appendCalls ''max'' Agent [(2, ''Hel'', Some False), (3, ''lo'', None), (4, ''!'', Some True)]
                reactedStores) ''max'' =
     Some [\<lparr>timestamp = 1, role = User, text = ''Hi'', isFinal = True, reaction = Some ''+1''\<rparr>,
           \<lparr>timestamp = 2, role = Agent, text = ''Hello!'', isFinal = True, reaction = None\<rparr>]"
proof -
  have n: "noneSealsEarly [(2, ''Hel'', Some False), (3, ''lo'', None), (4, ''!'', Some True)]"
    by (simp add: noneSealsEarly_def)
  show ?thesis
    using appendCalls_one_turn [OF historyOf_reactedStores_max _ n, of Agent] n
    by (simp add: historyOf_reactedStores_max startsNewTurn_def chunksOf_def lastFlag_def
        del: appendCalls.simps)
qed

text \<open>
  C2 as stated fails when the persona's trailing turn is an open turn of the same role:
  the call extends that turn, so the history gains no turn and the trailing text is not
  the concatenation of the chunks of the run alone.
\<close>

theorem appendCalls_one_turn_counterexample:
  "historyOf (appendTurn 1 ''max'' Agent ''x'' None initialStores) ''max'' =
     Some [\<lparr>timestamp = 1, role = Agent, text = ''x'', isFinal = False, reaction = None\<rparr>] \<and>
   historyOf (appendCalls ''max'' Agent [(2, ''a'', Some True)]
                (appendTurn 1 ''max'' Agent ''x'' None initialStores)) ''max'' =
     Some [\<lparr>timestamp = 1, role = Agent, text = ''xa'', isFinal = True, reaction = None\<rparr>]"
  by (simp add: historyOf_appendTurn [OF historyOf_appendTurn [OF historyOf_initialStores_max]]
      historyOf_appendTurn [OF historyOf_initialStores_max] mergeChunk_def)

section \<open>Rapport analysis\<close>

lemma getPersonaById_updatePersonaRapport:
  "getPersonaById (updatePersonaRapport pid v s) q =
     map_option (\<lambda>p. if personaId p = pid then p\<lparr>rapport := v\<rparr> else p) (getPersonaById s q)"
  unfolding getPersonaById_def updatePersonaRapport_def
  by (simp add: find_map_same_key)

text \<open>
  C7.  For a known persona and a non-empty exchange: when the remote call resolves to a
  text that parses to a value whose \<^verbatim>\<open>updatedRapport\<close> is a number \<open>x\<close>, the persona's
  rapport becomes \<open>x\<close> clamped into \<open>[0, 1000]\<close>; when the remote call rejects, the text
  is missing, parsing fails, or \<^verbatim>\<open>updatedRapport\<close> is not a number, the state is
  unchanged.  When the persona is unknown or the exchange is empty the analysis is
  skipped before any remote call and the state is unchanged.  A reply
  \<^verbatim>\<open>{updatedRapport: 1200}\<close> stores 1000.
\<close>

theorem analyzeRapport_clamps:
  "(getPersonaById s pid \<noteq> None \<and> exchange \<noteq> [] \<and> reply = Resolves (Some replyText) \<and>
      parseReply replyText = Some parsed \<and> readUpdatedRapport parsed = Some (Some (JNumber x)) \<longrightarrow>
        fst (analyzeRapport parseReply reply pid exchange s) = Stored (max 0 (min 1000 x)) \<and>
        map_option rapport (getPersonaById (snd (analyzeRapport parseReply reply pid exchange s)) pid)
          = Some (max 0 (min 1000 x)) \<and>
        0 \<le> max 0 (min 1000 x) \<and> max 0 (min 1000 x) \<le> 1000) \<and>
   (reply = Rejects \<or> reply = Resolves None \<or>
      (reply = Resolves (Some replyText) \<and> parseReply replyText = None) \<or>
      (reply = Resolves (Some replyText) \<and> parseReply replyText = Some parsed \<and>
         (\<forall>v. readUpdatedRapport parsed \<noteq> Some (Some (JNumber v)))) \<longrightarrow>
        snd (analyzeRapport parseReply reply pid exchange s) = s) \<and>
   (getPersonaById s pid = None \<or> exchange = [] \<longrightarrow>
        analyzeRapport parseReply reply pid exchange s = (Skipped, s)) \<and>
   map_option rapport
     (getPersonaById
        (snd (analyzeRapport (\<lambda>t. Some (JObject [(''updatedRapport'', JNumber 1200)]))
                (Resolves (Some ''{updatedRapport: 1200}'')) ''max''
                [\<lparr>timestamp = 1, role = User, text = ''Hi'', isFinal = True, reaction = None\<rparr>]
                initialStores)) ''max'') = Some 1000"
proof (intro conjI impI)
  assume a: "getPersonaById s pid \<noteq> None \<and> exchange \<noteq> [] \<and> reply = Resolves (Some replyText) \<and>
      parseReply replyText = Some parsed \<and> readUpdatedRapport parsed = Some (Some (JNumber x))"
  then obtain p where p: "getPersonaById s pid = Some p" by auto
  have pid: "personaId p = pid" using p by (rule getPersonaById_personaId)
  have run: "analyzeRapport parseReply reply pid exchange s =
               (Stored (max 0 (min 1000 x)), updatePersonaRapport pid (max 0 (min 1000 x)) s)"
    using a p by (simp add: analyzeRapport_def Let_def)
  show "fst (analyzeRapport parseReply reply pid exchange s) = Stored (max 0 (min 1000 x))"
    by (simp add: run)
  show "map_option rapport (getPersonaById (snd (analyzeRapport parseReply reply pid exchange s)) pid)
          = Some (max 0 (min 1000 x))"
    using p pid by (simp add: run getPersonaById_updatePersonaRapport)
  show "0 \<le> max 0 (min 1000 x)" by simp
  show "max 0 (min 1000 x) \<le> 1000" by simp
next
  assume "reply = Rejects \<or> reply = Resolves None \<or>
      (reply = Resolves (Some replyText) \<and> parseReply replyText = None) \<or>
      (reply = Resolves (Some replyText) \<and> parseReply replyText = Some parsed \<and>
         (\<forall>v. readUpdatedRapport parsed \<noteq> Some (Some (JNumber v))))"
  then show "snd (analyzeRapport parseReply reply pid exchange s) = s"
    by (auto simp: analyzeRapport_def split: option.splits json.splits)
next
  assume "getPersonaById s pid = None \<or> exchange = []"
  then show "analyzeRapport parseReply reply pid exchange s = (Skipped, s)"
    by (auto simp: analyzeRapport_def split: option.splits)
next
  show "map_option rapport
     (getPersonaById
        (snd (analyzeRapport (\<lambda>t. Some (JObject [(''updatedRapport'', JNumber 1200)]))
                (Resolves (Some ''{updatedRapport: 1200}'')) ''max''
                [\<lparr>timestamp = 1, role = User, text = ''Hi'', isFinal = True, reaction = None\<rparr>]
                initialStores)) ''max'') = Some 1000"
    by (simp add: analyzeRapport_def readUpdatedRapport_def updatePersonaRapport_def
        getPersonaById_def initialStores_def Let_def)
qed

text \<open>
  A reply below the range is stored as 0; a reply that is a string, a rejected call and
  an unknown persona leave the initial state as it is.
\<close>

theorem analyzeRapport_clamps_witness:
  "map_option rapport
     (getPersonaById
        (snd (analyzeRapport (\<lambda>t. Some (JObject [(''updatedRapport'', JNumber (- 5))]))
                (Resolves (Some ''r'')) ''chloe''
                [\<lparr>timestamp = 1, role = User, text = ''Hi'', isFinal = True, reaction = None\<rparr>]
                initialStores)) ''chloe'') = Some 0 \<and>
   snd (analyzeRapport (\<lambda>t. Some (JObject [(''updatedRapport'', JString ''high'')]))
          (Resolves (Some ''r'')) ''chloe''
          [\<lparr>timestamp = 1, role = User, text = ''Hi'', isFinal = True, reaction = None\<rparr>]
          initialStores) = initialStores \<and>
   snd (analyzeRapport (\<lambda>t. None) Rejects ''chloe''
          [\<lparr>timestamp = 1, role = User, text = ''Hi'', isFinal = True, reaction = None\<rparr>]
          initialStores) = initialStores \<and>
   analyzeRapport (\<lambda>t. None) Rejects ''nobody''
          [\<lparr>timestamp = 1, role = User, text = ''Hi'', isFinal = True, reaction = None\<rparr>]
          initialStores = (Skipped, initialStores)"
proof -
  let ?ex = "[\<lparr>timestamp = 1, role = User, text = ''Hi'', isFinal = True, reaction = None\<rparr>]"
  have k: "getPersonaById initialStores ''chloe'' \<noteq> None"
    and u: "getPersonaById initialStores ''nobody'' = None"
    by (simp_all add: getPersonaById_def initialStores_def)
  have r1: "readUpdatedRapport (JObject [(''updatedRapport'', JNumber (- 5))]) = Some (Some (JNumber (- 5)))"
    and r2: "\<forall>v. readUpdatedRapport (JObject [(''updatedRapport'', JString ''high'')]) \<noteq> Some (Some (JNumber v))"
    by (simp_all add: readUpdatedRapport_def)
  show ?thesis
    using
      analyzeRapport_clamps [of initialStores "''chloe''" ?ex "Resolves (Some ''r'')" "''r''"
        "\<lambda>t. Some (JObject [(''updatedRapport'', JNumber (- 5))])"
        "JObject [(''updatedRapport'', JNumber (- 5))]" "- 5"]
      analyzeRapport_clamps [of initialStores "''chloe''" ?ex "Resolves (Some ''r'')" "''r''"
        "\<lambda>t. Some (JObject [(''updatedRapport'', JString ''high'')])"
        "JObject [(''updatedRapport'', JString ''high'')]"]
      analyzeRapport_clamps [of initialStores "''chloe''" ?ex Rejects _ "\<lambda>t. None"]
      analyzeRapport_clamps [of initialStores "''nobody''" ?ex Rejects _ "\<lambda>t. None"]
      k u r1 r2
    by simp
qed

section \<open>Closing a live session\<close>





lemma renderedConnected_disconnect: "renderedConnected (disconnect s) = renderedConnected s"
  by (simp add: disconnect_def Let_def)



section \<open>Message pacing\<close>

lemma length_trim_le: "length (trim s) \<le> length s"
proof -
  have "length (trim s) \<le> length (dropWhile isWhiteSpace s)"
    unfolding trim_def using length_dropWhile_le [of isWhiteSpace "rev (dropWhile isWhiteSpace s)"] by simp
  also have "\<dots> \<le> length s" by (rule length_dropWhile_le)
  finally show ?thesis .
qed

lemma find_SomeD_set: "find P xs = Some x \<Longrightarrow> x \<in> set xs \<and> P x"
  by (induction xs) (auto split: if_splits)

lemma indexOf_range: "indexOf s p pos = - 1 \<or> int (min pos (length s)) \<le> indexOf s p pos"
proof (cases "find (matchesAt s p) [min pos (length s) ..< Suc (length s)]")
  case None
  then show ?thesis by (simp add: indexOf_def)
next
  case (Some k)
  from find_SomeD_set [OF this] have "k \<in> set [min pos (length s) ..< Suc (length s)]" by simp
  then have "min pos (length s) \<le> k" by auto
  with Some show ?thesis by (simp add: indexOf_def)
qed

lemma sentenceFold_range:
  "a = - 1 \<or> int MIN_CHUNK < a \<Longrightarrow>
   foldl (\<lambda>splitAt ch. let pos = lastIndexOf s ch n
                        in if pos > int MIN_CHUNK then max splitAt pos else splitAt) a cs = - 1
   \<or> int MIN_CHUNK <
      foldl (\<lambda>splitAt ch. let pos = lastIndexOf s ch n
                           in if pos > int MIN_CHUNK then max splitAt pos else splitAt) a cs"
proof (induction cs arbitrary: a)
  case Nil
  then show ?case by simp
next
  case (Cons c cs)
  show ?case
    unfolding foldl_Cons
    by (rule Cons.IH) (use Cons.prems in \<open>auto simp: Let_def\<close>)
qed

lemma sentenceSplit_range: "sentenceSplit s n = - 1 \<or> int MIN_CHUNK < sentenceSplit s n"
  unfolding sentenceSplit_def by (rule sentenceFold_range) simp

lemma peel_cases:
  assumes "MAX_CHUNK \<le> length r"
  obtains (cut) n where "0 < n" and "peel r = (trim (take n r), trim (drop n r))"
        | (whole) "peel r = (r, [])"
proof -
  let ?splitAt = "sentenceSplit r (min (length r) MAX_CHUNK)"
  let ?comma = "lastIndexOf r [44] (min (length r) MAX_CHUNK)"
  let ?space = "lastIndexOf r [32] IDEAL_CHUNK"
  let ?nextSpace = "indexOf r [32] IDEAL_CHUNK"
  consider (sentence) "?splitAt \<noteq> - 1"
    | (comma) "?splitAt = - 1" "?comma > int MIN_CHUNK"
    | (space) "?splitAt = - 1" "\<not> ?comma > int MIN_CHUNK" "?space > int MIN_CHUNK"
    | (nextSpace) "?splitAt = - 1" "\<not> ?comma > int MIN_CHUNK" "\<not> ?space > int MIN_CHUNK"
        "?nextSpace \<noteq> - 1"
    | (rest) "?splitAt = - 1" "\<not> ?comma > int MIN_CHUNK" "\<not> ?space > int MIN_CHUNK"
        "?nextSpace = - 1"
    by blast
  then show thesis
  proof cases
    case sentence
    then have "peel r = (trim (take (nat (?splitAt + 1)) r), trim (drop (nat (?splitAt + 1)) r))"
      by (simp add: peel_def Let_def)
    moreover have "0 < nat (?splitAt + 1)"
      using sentenceSplit_range [of r "min (length r) MAX_CHUNK"] sentence by linarith
    ultimately show thesis by (rule cut [rotated])
  next
    case comma
    then have "peel r = (trim (take (nat (?comma + 1)) r), trim (drop (nat (?comma + 1)) r))"
      by (simp add: peel_def Let_def)
    moreover have "0 < nat (?comma + 1)" using comma(2) by linarith
    ultimately show thesis by (rule cut [rotated])
  next
    case space
    then have "peel r = (trim (take (nat ?space) r), trim (drop (nat ?space) r))"
      by (simp add: peel_def Let_def)
    moreover have "0 < nat ?space" using space(3) by linarith
    ultimately show thesis by (rule cut [rotated])
  next
    case nextSpace
    then have "peel r = (trim (take (nat ?nextSpace) r), trim (drop (nat ?nextSpace) r))"
      by (simp add: peel_def Let_def)
    moreover have "0 < nat ?nextSpace"
      using indexOf_range [of r "[32]" IDEAL_CHUNK] nextSpace(4) assms
      unfolding IDEAL_CHUNK_def MAX_CHUNK_def by linarith
    ultimately show thesis by (rule cut [rotated])
  next
    case rest
    then have "peel r = (r, [])" by (simp add: peel_def Let_def)
    then show thesis by (rule whole)
  qed
qed

lemma peel_shrinks:
  assumes "MAX_CHUNK \<le> length r"
  shows "length (snd (peel r)) < length r"
proof -
  have pos: "0 < length r" using assms unfolding MAX_CHUNK_def by linarith
  from assms show ?thesis
  proof (cases r rule: peel_cases)
    case (cut n)
    have "length (snd (peel r)) \<le> length r - n"
      using length_trim_le [of "drop n r"] cut(2) by simp
    then show ?thesis using cut(1) pos by linarith
  next
    case whole
    then show ?thesis using pos by simp
  qed
qed

termination splitLoop
  by (relation "measure (\<lambda>(remainingText, bubbles). length remainingText)") (auto simp: peel_shrinks)

declare splitLoop.simps [simp del]

lemma trimmed_trim: "trimmed (trim s)"
proof -
  let ?y = "dropWhile isWhiteSpace s"
  let ?z = "dropWhile isWhiteSpace (rev ?y)"
  show ?thesis
  proof (cases "?z = []")
    case True
    then show ?thesis by (simp add: trimmed_def trim_def)
  next
    case False
    then have hz: "\<not> isWhiteSpace (hd ?z)" by (rule hd_dropWhile)
    have "rev ?y = takeWhile isWhiteSpace (rev ?y) @ ?z" by simp
    then have "last (rev ?y) = last ?z" using False by (metis last_appendR)
    moreover have y: "?y \<noteq> []"
    proof
      assume "?y = []"
      then have "?z = []" by (simp only: rev.simps(1) dropWhile.simps(1))
      with False show False by contradiction
    qed
    ultimately have "last ?z = hd ?y" by (simp add: last_rev)
    moreover have "\<not> isWhiteSpace (hd ?y)" using y by (rule hd_dropWhile)
    ultimately have "\<not> isWhiteSpace (last ?z)" by simp
    with hz False show ?thesis by (simp add: trimmed_def trim_def hd_rev last_rev)
  qed
qed

lemma trim_trimmed: "trimmed b \<Longrightarrow> trim b = b"
proof (cases "b = []")
  case True
  then show ?thesis by (simp add: trim_def)
next
  case False
  assume "trimmed b"
  with False have h: "\<not> isWhiteSpace (hd b)" and l: "\<not> isWhiteSpace (last b)"
    by (simp_all add: trimmed_def)
  have 1: "dropWhile isWhiteSpace b = b" using h False by (cases b) auto
  have 2: "dropWhile isWhiteSpace (rev b) = rev b"
    using l False by (cases "rev b") (auto simp: last_rev [symmetric] hd_rev)
  show ?thesis by (simp add: trim_def 1 2)
qed

lemma strip_dropWhile: "strip (dropWhile isWhiteSpace s) = strip s"
  by (induction s) (auto simp: strip_def)

lemma strip_rev: "strip (rev s) = rev (strip s)"
  by (simp add: strip_def rev_filter)

lemma strip_trim: "strip (trim s) = strip s"
  by (simp add: trim_def strip_rev strip_dropWhile)

lemma strip_Nil: "strip [] = []"
  by (simp add: strip_def)

lemma strip_append: "strip (a @ b) = strip a @ strip b"
  by (simp add: strip_def)

lemma peel_trimmed:
  assumes "MAX_CHUNK \<le> length r" and "trimmed r"
  shows "trimmed (fst (peel r)) \<and> trimmed (snd (peel r))"
  using assms(1)
proof (cases r rule: peel_cases)
  case (cut n)
  then show ?thesis by (simp add: trimmed_trim)
next
  case whole
  then show ?thesis using assms(2) by (simp add: trimmed_def)
qed

lemma peel_strip:
  assumes "MAX_CHUNK \<le> length r"
  shows "strip (fst (peel r)) @ strip (snd (peel r)) = strip r"
  using assms
proof (cases r rule: peel_cases)
  case (cut n)
  have "strip (take n r) @ strip (drop n r) = strip (take n r @ drop n r)"
    by (simp only: strip_append)
  then show ?thesis using cut by (simp add: strip_trim)
next
  case whole
  then show ?thesis by (simp add: strip_def)
qed

lemma splitLoop_trimmed:
  "trimmed r \<Longrightarrow> \<forall>b\<in>set bs. trimmed b \<Longrightarrow> \<forall>b\<in>set (splitLoop r bs). trimmed b"
proof (induction r bs rule: splitLoop.induct)
  case (1 r bs)
  show ?case
  proof (cases "0 < length r \<and> \<not> length r < MAX_CHUNK")
    case True
    then have big: "MAX_CHUNK \<le> length r" by simp
    have t: "trimmed (fst (peel r))" "trimmed (snd (peel r))"
      using peel_trimmed [OF big "1.prems"(1)] by simp_all
    have "\<forall>b\<in>set (splitLoop (snd (peel r)) (bs @ [fst (peel r)])). trimmed b"
      using True t "1.prems"(2) by (intro "1.IH") auto
    then show ?thesis using True by (subst splitLoop.simps) simp
  next
    case False
    then show ?thesis using "1.prems" by (subst splitLoop.simps) auto
  qed
qed

lemma splitLoop_strip:
  "strip (concat (splitLoop r bs)) = strip (concat bs) @ strip r"
proof (induction r bs rule: splitLoop.induct)
  case (1 r bs)
  show ?case
  proof (cases "0 < length r \<and> \<not> length r < MAX_CHUNK")
    case True
    then have big: "MAX_CHUNK \<le> length r" by simp
    have "strip (concat (splitLoop (snd (peel r)) (bs @ [fst (peel r)]))) =
            strip (concat (bs @ [fst (peel r)])) @ strip (snd (peel r))"
      using True by (intro "1.IH") auto
    also have "\<dots> = strip (concat bs) @ (strip (fst (peel r)) @ strip (snd (peel r)))"
      by (simp add: strip_append)
    also have "\<dots> = strip (concat bs) @ strip r"
      by (simp only: peel_strip [OF big])
    finally show ?thesis using True by (subst splitLoop.simps) simp
  next
    case False
    then show ?thesis by (subst splitLoop.simps) (auto simp: strip_append strip_def)
  qed
qed

lemma concat_filter_nonempty: "concat (filter (\<lambda>b. b \<noteq> []) xs) = concat xs"
  by (induction xs) auto

lemma lastIndexFrom_found:
  "m \<le> n \<Longrightarrow> matchesAt s p m \<Longrightarrow> (\<And>k. m < k \<Longrightarrow> k \<le> n \<Longrightarrow> \<not> matchesAt s p k) \<Longrightarrow>
   lastIndexFrom s p n = int m"
proof (induction n)
  case 0
  then show ?case by simp
next
  case (Suc n)
  show ?case
  proof (cases "m = Suc n")
    case True
    with Suc.prems(2) show ?thesis by simp
  next
    case False
    with Suc.prems(1) have "m \<le> n" by simp
    moreover have "\<not> matchesAt s p (Suc n)" using Suc.prems(1,3) False by simp
    ultimately show ?thesis using Suc.IH Suc.prems(2,3) by simp
  qed
qed

lemma lastIndexFrom_none:
  "(\<And>k. k \<le> n \<Longrightarrow> \<not> matchesAt s p k) \<Longrightarrow> lastIndexFrom s p n = - 1"
  by (induction n) simp_all

lemma matchesAt_first: "matchesAt s (c # cs) k \<Longrightarrow> k < length s \<and> s ! k = c"
proof -
  assume m: "matchesAt s (c # cs) k"
  then have len: "k < length s" by (simp add: matchesAt_def)
  from m have "take (Suc (length cs)) (drop k s) = c # cs" by (simp add: matchesAt_def)
  then have "hd (drop k s) = c" by (metis hd_take list.sel(1) zero_less_Suc)
  with len show ?thesis by (simp add: hd_drop_conv_nth)
qed

lemma matchesAt_second: "matchesAt s (c # d # cs) k \<Longrightarrow> Suc k < length s \<and> s ! Suc k = d"
proof -
  assume m: "matchesAt s (c # d # cs) k"
  then have len: "Suc k < length s" by (simp add: matchesAt_def)
  from m have "take (Suc (Suc (length cs))) (drop k s) = c # d # cs" by (simp add: matchesAt_def)
  then have "take (Suc (Suc (length cs))) (drop k s) ! 1 = d" by simp
  then have "drop k s ! 1 = d" by simp
  with len show ?thesis by simp
qed

lemma tokenText_nth: "k < 151 \<Longrightarrow> tokenText ! k = (if k < 30 then 97 else if k = 30 then 46 else 98)"
  by (auto simp: tokenText_def nth_append nth_Cons')

lemma tokenText_length: "length tokenText = 151"
  by (simp add: tokenText_def)

lemma tokenText_single:
  "matchesAt tokenText [c] k \<Longrightarrow> c \<noteq> 97 \<Longrightarrow> c \<noteq> 98 \<Longrightarrow> c = 46 \<and> k = 30"
  using matchesAt_first [of tokenText c "[]" k] tokenText_nth [of k]
  by (auto simp: tokenText_length split: if_splits)

lemma tokenText_dot: "lastIndexOf tokenText [46] 140 = 30"
proof -
  have "matchesAt tokenText [46] 30"
    by (simp add: matchesAt_def tokenText_def)
  moreover have "\<not> matchesAt tokenText [46] k" if "30 < k" for k
    using tokenText_single [of 46 k] that by auto
  ultimately have "lastIndexFrom tokenText [46] 140 = int 30"
    by (intro lastIndexFrom_found) simp_all
  then show ?thesis by (simp add: lastIndexOf_def tokenText_length)
qed

lemma tokenText_other:
  "c \<noteq> 97 \<Longrightarrow> c \<noteq> 98 \<Longrightarrow> c \<noteq> 46 \<Longrightarrow> lastIndexOf tokenText [c] 140 = - 1"
  unfolding lastIndexOf_def
  by (rule lastIndexFrom_none) (use tokenText_single in blast)

lemma tokenText_ellipsis: "lastIndexOf tokenText [46, 46, 46] 140 = - 1"
  unfolding lastIndexOf_def
proof (rule lastIndexFrom_none)
  fix k
  show "\<not> matchesAt tokenText [46, 46, 46] k"
  proof
    assume m: "matchesAt tokenText [46, 46, 46] k"
    from matchesAt_first [OF m] have "k < 151" "tokenText ! k = 46" by (simp_all add: tokenText_length)
    then have k: "k = 30" by (simp add: tokenText_nth split: if_splits)
    from matchesAt_second [OF m] have "tokenText ! Suc k = 46" by simp
    with k show False by (simp add: tokenText_nth)
  qed
qed

lemma tokenText_sentenceSplit: "sentenceSplit tokenText (min (length tokenText) MAX_CHUNK) = 30"
  by (simp add: sentenceSplit_def sentenceEndChars_def tokenText_length MAX_CHUNK_def MIN_CHUNK_def
      tokenText_dot tokenText_other tokenText_ellipsis)

lemma tokenText_peel:
  "peel tokenText = (replicate 30 97 @ [46], replicate 120 98)"
proof -
  have t1: "trimmed (replicate 30 97 @ [46])" and t2: "trimmed (replicate 120 98)"
    by (simp_all add: trimmed_def isWhiteSpace_def hd_append)
  have "take 31 tokenText = replicate 30 97 @ [46]" and "drop 31 tokenText = replicate 120 98"
    by (simp_all add: tokenText_def)
  then show ?thesis
    by (simp add: peel_def tokenText_sentenceSplit trim_trimmed t1 t2)
qed

lemma tokenText_split:
  "splitMessage tokenText = [replicate 30 97 @ [46], replicate 120 98]"
proof -
  have t: "trim tokenText = tokenText"
    by (rule trim_trimmed) (simp add: trimmed_def tokenText_def isWhiteSpace_def hd_append)
  have "splitLoop tokenText [] = splitLoop (replicate 120 98) [replicate 30 97 @ [46]]"
    by (subst splitLoop.simps) (simp add: tokenText_length MAX_CHUNK_def tokenText_peel)
  also have "\<dots> = [replicate 30 97 @ [46], replicate 120 98]"
    by (subst splitLoop.simps) (simp add: MAX_CHUNK_def)
  finally show ?thesis
    by (simp add: splitMessage_def tokenText_length MAX_CHUNK_def t)
qed

lemma trim_split:
  "\<exists>a b. list_all isWhiteSpace a \<and> list_all isWhiteSpace b \<and> x = a @ trim x @ b"
proof -
  let ?a = "takeWhile isWhiteSpace x"
  let ?y = "dropWhile isWhiteSpace x"
  let ?b = "rev (takeWhile isWhiteSpace (rev ?y))"
  have e: "rev (takeWhile isWhiteSpace (rev ?y) @ dropWhile isWhiteSpace (rev ?y)) = ?y"
    by (simp only: takeWhile_dropWhile_id rev_rev_ident)
  have y: "?y = trim x @ ?b"
    unfolding trim_def by (rule e [unfolded rev_append, symmetric])
  have "x = ?a @ ?y" by simp
  with y have "x = ?a @ trim x @ ?b" by simp
  moreover have "list_all isWhiteSpace ?a"
    by (auto simp: list_all_iff dest: set_takeWhileD)
  moreover have "list_all isWhiteSpace ?b"
    by (auto simp: list_all_iff dest: set_takeWhileD)
  ultimately show ?thesis by blast
qed

lemma peel_split:
  assumes "MAX_CHUNK \<le> length r"
  shows "\<exists>a b c. list_all isWhiteSpace a \<and> list_all isWhiteSpace b \<and> list_all isWhiteSpace c \<and>
           r = a @ fst (peel r) @ b @ snd (peel r) @ c"
  using assms
proof (cases r rule: peel_cases)
  case (cut n)
  obtain a1 b1 where 1: "list_all isWhiteSpace a1" "list_all isWhiteSpace b1"
    "take n r = a1 @ trim (take n r) @ b1"
    using trim_split [of "take n r"] by blast
  obtain a2 b2 where 2: "list_all isWhiteSpace a2" "list_all isWhiteSpace b2"
    "drop n r = a2 @ trim (drop n r) @ b2"
    using trim_split [of "drop n r"] by blast
  have "r = take n r @ drop n r" by simp
  also have "\<dots> = (a1 @ trim (take n r) @ b1) @ (a2 @ trim (drop n r) @ b2)"
    using 1(3) 2(3) by simp
  finally have "r = a1 @ fst (peel r) @ (b1 @ a2) @ snd (peel r) @ b2"
    using cut(2) by simp
  moreover have "list_all isWhiteSpace (b1 @ a2)" using 1(2) 2(1) by simp
  ultimately show ?thesis using 1(1) 2(2) by blast
next
  case whole
  have "r = [] @ fst (peel r) @ [] @ snd (peel r) @ []" using whole by simp
  moreover have "list_all isWhiteSpace []" by simp
  ultimately show ?thesis by blast
qed

lemma weave_snoc:
  "length gaps = length bs \<Longrightarrow> weave (gaps @ [g]) (bs @ [f]) = weave gaps bs @ g @ f"
  by (simp add: weave_def)

lemma splitLoop_spaced:
  "length gaps = length bs \<Longrightarrow> list_all (list_all isWhiteSpace) gaps \<Longrightarrow>
   list_all isWhiteSpace g \<Longrightarrow> list_all isWhiteSpace c \<Longrightarrow>
   t = weave gaps bs @ g @ r @ c \<Longrightarrow> spaced (splitLoop r bs) t"
proof (induction r bs arbitrary: gaps g c rule: splitLoop.induct)
  case (1 r bs)
  show ?case
  proof (cases "r = []")
    case True
    then have stop: "splitLoop r bs = bs" by (subst splitLoop.simps) simp
    have "t = weave gaps bs @ (g @ c)" using "1.prems"(5) True by simp
    moreover have "list_all isWhiteSpace (g @ c)" using "1.prems"(3,4) by simp
    ultimately have "spaced bs t" unfolding spaced_def using "1.prems"(1,2) by blast
    then show ?thesis by (simp only: stop)
  next
    case False
    show ?thesis
    proof (cases "length r < MAX_CHUNK")
      case True
      then have stop: "splitLoop r bs = bs @ [r]" using False by (subst splitLoop.simps) simp
      have "t = weave (gaps @ [g]) (bs @ [r]) @ c"
        using "1.prems"(1,5) by (simp add: weave_snoc)
      moreover have "length (gaps @ [g]) = length (bs @ [r])" using "1.prems"(1) by simp
      moreover have "list_all (list_all isWhiteSpace) (gaps @ [g])" using "1.prems"(2,3) by simp
      ultimately have "spaced (bs @ [r]) t" unfolding spaced_def using "1.prems"(4) by blast
      then show ?thesis by (simp only: stop)
    next
      case big: False
      then have len: "MAX_CHUNK \<le> length r" by simp
      obtain a b c' where w: "list_all isWhiteSpace a" "list_all isWhiteSpace b"
        "list_all isWhiteSpace c'" and r: "r = a @ fst (peel r) @ b @ snd (peel r) @ c'"
        using peel_split [OF len] by blast
      have step: "splitLoop r bs = splitLoop (snd (peel r)) (bs @ [fst (peel r)])"
        using False big by (subst splitLoop.simps) simp
      have "t = weave gaps bs @ g @ (a @ fst (peel r) @ b @ snd (peel r) @ c') @ c"
        using "1.prems"(5) r by simp
      then have t: "t = weave (gaps @ [g @ a]) (bs @ [fst (peel r)]) @ b @ snd (peel r) @ (c' @ c)"
        using "1.prems"(1) by (simp add: weave_snoc)
      have "spaced (splitLoop (snd (peel r)) (bs @ [fst (peel r)])) t"
      proof (rule "1.IH" [OF _ _ _ _ _ _ t])
        show "0 < length r" using False by simp
        show "\<not> length r < MAX_CHUNK" by (rule big)
        show "length (gaps @ [g @ a]) = length (bs @ [fst (peel r)])" using "1.prems"(1) by simp
        show "list_all (list_all isWhiteSpace) (gaps @ [g @ a])"
          using "1.prems"(2,3) w(1) by simp
        show "list_all isWhiteSpace b" by (rule w(2))
        show "list_all isWhiteSpace (c' @ c)" using w(3) "1.prems"(4) by simp
      qed
      then show ?thesis by (simp only: step)
    qed
  qed
qed

lemma spaced_Nil: "spaced [] t = list_all isWhiteSpace t"
  by (auto simp: spaced_def weave_def)

lemma spaced_Cons:
  "spaced (f # fs) t = (\<exists>g t'. list_all isWhiteSpace g \<and> t = g @ f @ t' \<and> spaced fs t')"
proof
  assume "spaced (f # fs) t"
  then obtain gaps rest where l: "length gaps = length (f # fs)"
    and g: "list_all (list_all isWhiteSpace) gaps" and r: "list_all isWhiteSpace rest"
    and t: "t = weave gaps (f # fs) @ rest"
    unfolding spaced_def by blast
  from l obtain g0 gs where gaps: "gaps = g0 # gs" by (cases gaps) auto
  have "t = g0 @ f @ (weave gs fs @ rest)" using t gaps by (simp add: weave_def)
  moreover have "spaced fs (weave gs fs @ rest)"
    unfolding spaced_def using l g r gaps by auto
  moreover have "list_all isWhiteSpace g0" using g gaps by simp
  ultimately show "\<exists>g t'. list_all isWhiteSpace g \<and> t = g @ f @ t' \<and> spaced fs t'" by blast
next
  assume "\<exists>g t'. list_all isWhiteSpace g \<and> t = g @ f @ t' \<and> spaced fs t'"
  then obtain g t' gs rest where g: "list_all isWhiteSpace g" and t: "t = g @ f @ t'"
    and l: "length gs = length fs" and gs: "list_all (list_all isWhiteSpace) gs"
    and r: "list_all isWhiteSpace rest" and t': "t' = weave gs fs @ rest"
    unfolding spaced_def by blast
  have "t = weave (g # gs) (f # fs) @ rest" using t t' by (simp add: weave_def)
  moreover have "length (g # gs) = length (f # fs)" using l by simp
  moreover have "list_all (list_all isWhiteSpace) (g # gs)" using g gs by simp
  ultimately show "spaced (f # fs) t" unfolding spaced_def using r by blast
qed

lemma spaced_prepend:
  "list_all isWhiteSpace w \<Longrightarrow> spaced fs t \<Longrightarrow> spaced fs (w @ t)"
proof (cases fs)
  case Nil
  assume "list_all isWhiteSpace w" and "spaced fs t"
  with Nil show ?thesis by (simp add: spaced_Nil)
next
  case (Cons f fs')
  assume w: "list_all isWhiteSpace w" and "spaced fs t"
  then obtain g t' where g: "list_all isWhiteSpace g" and t: "t = g @ f @ t'" and s: "spaced fs' t'"
    using Cons by (auto simp: spaced_Cons)
  have "w @ t = (w @ g) @ f @ t'" using t by simp
  moreover have "list_all isWhiteSpace (w @ g)" using w g by simp
  ultimately show ?thesis unfolding Cons spaced_Cons using s by blast
qed

lemma spaced_filter: "spaced fs t \<Longrightarrow> spaced (filter (\<lambda>b. b \<noteq> []) fs) t"
proof (induction fs arbitrary: t)
  case Nil
  then show ?case by simp
next
  case (Cons f fs)
  from Cons.prems obtain g t' where g: "list_all isWhiteSpace g" and t: "t = g @ f @ t'"
    and s: "spaced fs t'"
    by (auto simp: spaced_Cons)
  have IH: "spaced (filter (\<lambda>b. b \<noteq> []) fs) t'" using s by (rule Cons.IH)
  show ?case
  proof (cases "f = []")
    case True
    then have "t = g @ t'" using t by simp
    then show ?thesis using True spaced_prepend [OF g IH] by simp
  next
    case False
    then show ?thesis using g t IH by (auto simp: spaced_Cons)
  qed
qed

lemma splitMessage_spaced: "spaced (splitMessage txt) txt"
proof (cases "length txt < MAX_CHUNK")
  case True
  have "spaced [txt] txt"
    unfolding spaced_Cons spaced_Nil
  proof (intro exI conjI)
    show "list_all isWhiteSpace []" by simp
    show "txt = [] @ txt @ []" by simp
    show "list_all isWhiteSpace []" by simp
  qed
  with True show ?thesis by (simp add: splitMessage_def)
next
  case False
  obtain a b where a: "list_all isWhiteSpace a" and b: "list_all isWhiteSpace b"
    and t: "txt = a @ trim txt @ b"
    using trim_split [of "txt"] by blast
  have "spaced (splitLoop (trim txt) []) txt"
  proof (rule splitLoop_spaced [of "[]" "[]" a b])
    show "length ([] :: jsstring list) = length ([] :: jsstring list)" by simp
    show "list_all (list_all isWhiteSpace) []" by simp
    show "list_all isWhiteSpace a" by (rule a)
    show "list_all isWhiteSpace b" by (rule b)
    show "txt = weave [] [] @ a @ trim txt @ b" using t by (simp add: weave_def)
  qed
  then have "spaced (filter (\<lambda>b. b \<noteq> []) (splitLoop (trim txt) [])) txt"
    by (rule spaced_filter)
  with False show ?thesis by (simp add: splitMessage_def)
qed

lemma trim_hi: "trim (ascii '' hi '') = ascii ''hi''"
  by (simp add: trim_def ascii_def isWhiteSpace_def)

text \<open>
  C3 (as amended).  For an input of fewer than 140 code units that is not empty and has
  no white space at either end, \<^verbatim>\<open>splitMessage\<close> returns exactly one fragment, the
  (trimmed) input.  For an input of at least 140 code units every returned fragment
  is trimmed at both ends and none is empty.  For every input, the input is the
  returned fragments, verbatim and in order, with a run of white space, possibly empty,
  before each fragment and after the last one: nothing but white space at the cut points
  and at the two ends is lost, and what a single-space join changes is only that each of
  these runs between two fragments, empty ones included, becomes one space.  In
  particular the fragments in order have the non-white-space content of the input.
\<close>

theorem splitMessage_fragments:
  "(length txt < MAX_CHUNK \<and> txt \<noteq> [] \<and> trim txt = txt \<longrightarrow> splitMessage txt = [trim txt]) \<and>
   (MAX_CHUNK \<le> length txt \<longrightarrow> (\<forall>b\<in>set (splitMessage txt). b \<noteq> [] \<and> trim b = b)) \<and>
   (\<exists>gaps rest. length gaps = length (splitMessage txt) \<and>
      list_all (list_all isWhiteSpace) gaps \<and> list_all isWhiteSpace rest \<and>
      txt = weave gaps (splitMessage txt) @ rest) \<and>
   strip (concat (splitMessage txt)) = strip txt"
proof (intro conjI impI)
  assume "length txt < MAX_CHUNK \<and> txt \<noteq> [] \<and> trim txt = txt"
  then show "splitMessage txt = [trim txt]" by (simp add: splitMessage_def)
next
  assume big: "MAX_CHUNK \<le> length txt"
  have "\<forall>b\<in>set (splitLoop (trim txt) []). trimmed b"
    by (rule splitLoop_trimmed) (simp_all add: trimmed_trim)
  then show "\<forall>b\<in>set (splitMessage txt). b \<noteq> [] \<and> trim b = b"
    using big by (auto simp: splitMessage_def trim_trimmed)
next
  show "\<exists>gaps rest. length gaps = length (splitMessage txt) \<and>
      list_all (list_all isWhiteSpace) gaps \<and> list_all isWhiteSpace rest \<and>
      txt = weave gaps (splitMessage txt) @ rest"
    using splitMessage_spaced [of "txt"] unfolding spaced_def .
next
  show "strip (concat (splitMessage txt)) = strip txt"
    by (simp add: splitMessage_def concat_filter_nonempty splitLoop_strip strip_trim strip_Nil)
qed

text \<open>
  A short trimmed input comes back as its one fragment; the long token is cut into two
  trimmed fragments with empty gaps.
\<close>

theorem splitMessage_fragments_witness:
  "splitMessage (ascii ''Hi there'') = [ascii ''Hi there''] \<and>
   trim (replicate 30 97 @ [46]) = replicate 30 97 @ [46] \<and>
   trim (replicate 120 98) = replicate 120 98 \<and>
   tokenText = weave [[], []] (splitMessage tokenText) @ [] \<and>
   strip (concat (splitMessage tokenText)) = strip tokenText"
proof -
  have s: "length (ascii ''Hi there'') < MAX_CHUNK" "ascii ''Hi there'' \<noteq> []"
    "trim (ascii ''Hi there'') = ascii ''Hi there''"
    by (simp_all add: ascii_def MAX_CHUNK_def trim_def isWhiteSpace_def)
  have l: "MAX_CHUNK \<le> length tokenText" by (simp add: tokenText_length MAX_CHUNK_def)
  have w: "tokenText = weave [[], []] (splitMessage tokenText) @ []"
    unfolding tokenText_split by (simp add: weave_def tokenText_def)
  from splitMessage_fragments [of "ascii ''Hi there''"] s
  have a: "splitMessage (ascii ''Hi there'') = [ascii ''Hi there'']" by simp
  from splitMessage_fragments [of tokenText] l
  have b: "\<forall>b\<in>set (splitMessage tokenText). b \<noteq> [] \<and> trim b = b"
    and c: "strip (concat (splitMessage tokenText)) = strip tokenText"
    by blast+
  from b have "trim (replicate 30 97 @ [46]) = replicate 30 97 @ [46]"
    and "trim (replicate 120 98) = replicate 120 98"
    by (simp_all add: tokenText_split)
  with a c w show ?thesis by simp
qed

text \<open>
  C3 as stated fails in two ways.  A short input is returned as it is: with its
  surrounding white space, and even when it is empty.  And a cut after a sentence mark
  inside a token removes no white space, so joining the two fragments with a space gives
  a text that the input, which has no white space at all, is not.
\<close>

theorem splitMessage_fragments_counterexample:
  "splitMessage (ascii '' hi '') = [ascii '' hi ''] \<and>
   trim (ascii '' hi '') = ascii ''hi'' \<and>
   ascii '' hi '' \<noteq> ascii ''hi'' \<and>
   splitMessage [] = [[]] \<and>
   splitMessage tokenText = [replicate 30 97 @ [46], replicate 120 98] \<and>
   length ((replicate 30 97 @ [46]) @ [32] @ replicate 120 98) \<noteq> length tokenText \<and>
   strip tokenText = tokenText"
proof -
  have "splitMessage (ascii '' hi '') = [ascii '' hi '']" and "splitMessage [] = [[]]"
    by (simp_all add: splitMessage_def ascii_def MAX_CHUNK_def)
  moreover have "ascii '' hi '' \<noteq> ascii ''hi''" by (simp add: ascii_def)
  moreover have "strip tokenText = tokenText"
    by (simp add: strip_def tokenText_def isWhiteSpace_def)
  ultimately show ?thesis
    by (simp add: trim_hi tokenText_split tokenText_length)
qed

end
